theory Spec2Isabelle
  imports Main "HOL-Library.Multiset" "HOL-Library.AList"
begin

section \<open>Data model\<close>

text \<open>
  The repository is a Node.js script kept in several revisions, each with its own
  \<^verbatim>\<open>fetchWeather\<close>, \<^verbatim>\<open>appendToSheet\<close> and \<^verbatim>\<open>main\<close>:
  \<^item> \<^verbatim>\<open>src/index.js\<close>, first revision (Nowcast only, long layout with four columns):
    suffix \<open>_temp\<close>;
  \<^item> \<^verbatim>\<open>src/index.js\<close>, second revision (areas, precipitation, cloud cover, long layout
    with seven columns): suffix \<open>_full\<close>;
  \<^item> the wide-layout revision (one column per location): suffix \<open>_wide\<close>;
  \<^item> the sample-data uploader (bulk rows in batches): suffix \<open>_bulk\<close>.

  JavaScript numbers are IEEE doubles. The embedding leaves the number type \<open>'n\<close> open and
  takes the three operations the script uses on numbers as a parameter, with no law
  assumed of them: the constant \<open>0\<close>, the addition of \<^verbatim>\<open>+=\<close> and the test
  for a falsy number of \<^verbatim>\<open>||\<close>.
\<close>

record 'n number_ops =
  num_zero :: 'n
  num_add :: "'n \<Rightarrow> 'n \<Rightarrow> 'n"
  num_falsy :: "'n \<Rightarrow> bool"

text \<open>A value written into a spreadsheet cell.\<close>

datatype 'n jsval = Str string | Num 'n | Null | Undefined

text \<open>An entry of \<^verbatim>\<open>locations.json\<close>; \<open>area\<close> is optional.\<close>

record 'n location =
  name :: string
  latitude :: 'n
  longitude :: 'n
  area :: "string option"

text \<open>
  One entry of \<^verbatim>\<open>properties.timeseries\<close>. \<open>air_temperature\<close> and
  \<open>cloud_area_fraction\<close> are the fields of \<^verbatim>\<open>data.instant.details\<close>, \<open>None\<close>
  when absent (\<^verbatim>\<open>undefined\<close>). \<^verbatim>\<open>data.next_1_hours\<close>, its \<^verbatim>\<open>details\<close>
  and their \<^verbatim>\<open>precipitation_amount\<close> may each be absent.
\<close>

datatype 'n details = Details (precipitation_amount: "'n option")

datatype 'n next_hours = Next_Hours (details: "'n details option")

record 'n entry =
  time :: string
  air_temperature :: "'n option"
  cloud_area_fraction :: "'n option"
  next_1_hours :: "'n next_hours option"

text \<open>
  An HTTP response: \<open>ok\<close> and \<open>status\<close> as in \<^verbatim>\<open>node-fetch\<close>; \<open>json\<close> is the
  \<^verbatim>\<open>properties.timeseries\<close> of the parsed body, \<open>None\<close> when the body does not parse
  or has no such array.
\<close>

record 'n response =
  ok :: bool
  status :: nat
  json :: "'n entry list option"

text \<open>What a run can throw.\<close>

datatype error =
    Api_Error string nat    \<comment> \<open>\<^verbatim>\<open>new Error(`... API error: ${status}`)\<close>\<close>
  | Type_Error              \<comment> \<open>a property read or a call on \<^verbatim>\<open>undefined\<close>\<close>
  | Body_Error              \<comment> \<open>\<^verbatim>\<open>response.json()\<close> rejects, or the body has no time series\<close>
  | Network_Error string    \<comment> \<open>\<^verbatim>\<open>fetch\<close> rejects\<close>
  | Config_Error string     \<comment> \<open>the configuration or the credentials do not load\<close>
  | Sheets_Error string     \<comment> \<open>a call of the spreadsheet API rejects\<close>

datatype endpoint = Nowcast | Locationforecast

text \<open>
  Every call the script makes to the outside is an event of the run's trace, recorded with
  the answer it got.
\<close>

datatype 'n event =
    Http_Get endpoint 'n 'n "error + 'n response"
  | Sheets_Get string "error + string list list option"
  | Sheets_Update string "string list list" "error option"
  | Sheets_Append string "'n jsval list list" "error option"

text \<open>
  The outside world: what each call answers, given the trace of the run so far.
  \<open>config\<close> is what \<^verbatim>\<open>loadLocations\<close> returns or throws, \<open>google_credentials\<close> the
  error of \<^verbatim>\<open>JSON.parse(process.env.GOOGLE_CREDENTIALS)\<close> if it throws, and the clock
  gives \<^verbatim>\<open>new Date().toISOString()\<close> and \<^verbatim>\<open>getUTCHours()\<close>. Logging and the pause of
  one second after each fetch are left out: they call nothing outside.
\<close>

record 'n env =
  config :: "error + 'n location list"
  http_get :: "'n event list \<Rightarrow> endpoint \<Rightarrow> 'n \<Rightarrow> 'n \<Rightarrow> error + 'n response"
  sheets_get :: "'n event list \<Rightarrow> string \<Rightarrow> error + string list list option"
  sheets_update :: "'n event list \<Rightarrow> string \<Rightarrow> string list list \<Rightarrow> error option"
  sheets_append :: "'n event list \<Rightarrow> string \<Rightarrow> 'n jsval list list \<Rightarrow> error option"
  google_credentials :: "error option"
  iso_string :: string
  utc_hours :: nat

section \<open>Weather Fetcher\<close>

text \<open>The fragment \<^verbatim>\<open>fetchWeather\<close> returns; a \<open>cloudCover\<close> of \<open>None\<close> is \<^verbatim>\<open>null\<close>.\<close>

record 'n weather =
  temperature :: "'n option"
  precipitation :: 'n
  cloudCover :: "'n option"
  timestamp :: string

text \<open>\<^verbatim>\<open>entry.data.next_1_hours?.details?.precipitation_amount\<close>\<close>

definition next_precipitation :: "'n entry \<Rightarrow> 'n option" where
  "next_precipitation e =
     (case next_1_hours e of
        None \<Rightarrow> None
      | Some h \<Rightarrow> (case details h of None \<Rightarrow> None | Some d \<Rightarrow> precipitation_amount d))"

text \<open>
  The loop \<^verbatim>\<open>for (let i = 0; i < Math.min(6, nowcastTimeseries.length); i++)\<close> with its
  accumulator \<^verbatim>\<open>precipitationSum\<close>.
\<close>

function precipitation_loop :: "'n number_ops \<Rightarrow> 'n entry list \<Rightarrow> nat \<Rightarrow> 'n \<Rightarrow> 'n" where
  "precipitation_loop ops ts i precipitationSum =
     (if i < min 6 (length ts)
      then precipitation_loop ops ts (Suc i)
             (case next_precipitation (ts ! i) of
                None \<Rightarrow> precipitationSum
              | Some v \<Rightarrow> num_add ops precipitationSum v)
      else precipitationSum)"
  by pat_completeness auto
termination
  by (relation "measure (\<lambda>(ops, ts, i, s). min 6 (length ts) - i)") auto

declare precipitation_loop.simps [simp del]

text \<open>\<^verbatim>\<open>x || 0\<close> on an optional number.\<close>

definition or_zero :: "'n number_ops \<Rightarrow> 'n option \<Rightarrow> 'n" where
  "or_zero ops x =
     (case x of None \<Rightarrow> num_zero ops | Some v \<Rightarrow> if num_falsy ops v then num_zero ops else v)"

text \<open>
  \<^verbatim>\<open>fetchWeather\<close> of the second revision of \<^verbatim>\<open>src/index.js\<close>. It takes the trace so
  far and returns what it returns or throws, with the trace extended by its calls.
\<close>

definition fetchWeather_full ::
  "'n env \<Rightarrow> 'n number_ops \<Rightarrow> 'n \<Rightarrow> 'n \<Rightarrow> 'n event list \<Rightarrow> (error + 'n weather) \<times> 'n event list" where
  "fetchWeather_full env ops lat lon t =
     (let nowcastResponse = http_get env t Nowcast lat lon;
          t1 = t @ [Http_Get Nowcast lat lon nowcastResponse]
      in (case nowcastResponse of
            Inl e \<Rightarrow> (Inl e, t1)
          | Inr nowcast \<Rightarrow>
             (if \<not> ok nowcast
              then (Inl (Api_Error ''Nowcast API error: '' (status nowcast)), t1)
              else (case json nowcast of
                None \<Rightarrow> (Inl Body_Error, t1)
              | Some [] \<Rightarrow> (Inl Type_Error, t1)
              | Some (current # rest) \<Rightarrow>
                 (let nowcastTimeseries = current # rest;
                      precipitationSum = precipitation_loop ops nowcastTimeseries 0 (num_zero ops);
                      forecastResponse = http_get env t1 Locationforecast lat lon;
                      t2 = t1 @ [Http_Get Locationforecast lat lon forecastResponse]
                  in (case forecastResponse of
                        Inl e \<Rightarrow> (Inl e, t2)
                      | Inr forecast \<Rightarrow>
                         (if ok forecast
                          then (case json forecast of
                                  None \<Rightarrow> (Inl Body_Error, t2)
                                | Some [] \<Rightarrow> (Inl Type_Error, t2)
                                | Some (forecastCurrent # _) \<Rightarrow>
                                    (Inr \<lparr>temperature = air_temperature current,
                                          precipitation = precipitationSum,
                                          cloudCover = Some (or_zero ops (cloud_area_fraction forecastCurrent)),
                                          timestamp = time current\<rparr>, t2))
                          else (Inr \<lparr>temperature = air_temperature current,
                                     precipitation = precipitationSum,
                                     cloudCover = None,
                                     timestamp = time current\<rparr>, t2))))))))"

text \<open>\<^verbatim>\<open>fetchWeather\<close> of the first revision: one call, the temperature only.\<close>

record 'n weather_temp =
  temperature_temp :: "'n option"
  timestamp_temp :: string

definition fetchWeather_temp ::
  "'n env \<Rightarrow> 'n \<Rightarrow> 'n \<Rightarrow> 'n event list \<Rightarrow> (error + 'n weather_temp) \<times> 'n event list" where
  "fetchWeather_temp env lat lon t =
     (let response = http_get env t Nowcast lat lon;
          t1 = t @ [Http_Get Nowcast lat lon response]
      in (case response of
            Inl e \<Rightarrow> (Inl e, t1)
          | Inr r \<Rightarrow>
             (if \<not> ok r then (Inl (Api_Error ''Weather API error: '' (status r)), t1)
              else (case json r of
                None \<Rightarrow> (Inl Body_Error, t1)
              | Some [] \<Rightarrow> (Inl Type_Error, t1)
              | Some (current # _) \<Rightarrow>
                  (Inr \<lparr>temperature_temp = air_temperature current,
                        timestamp_temp = time current\<rparr>, t1)))))"

section \<open>Reading Collector\<close>

text \<open>The objects pushed onto \<^verbatim>\<open>weatherData\<close>; the second revision adds three fields.\<close>

record 'n reading =
  r_location :: string
  r_latitude :: 'n
  r_longitude :: 'n
  r_temperature :: "'n option"

record 'n reading_full = "'n reading" +
  r_area :: string
  r_precipitation :: 'n
  r_cloudCover :: "'n option"

text \<open>The loop of the first revision: \<^verbatim>\<open>for (const location of locations)\<close>.\<close>

fun collect_temp ::
  "'n env \<Rightarrow> 'n location list \<Rightarrow> 'n reading list \<Rightarrow> 'n event list \<Rightarrow>
   (error + 'n reading list) \<times> 'n event list" where
  "collect_temp env [] weatherData t = (Inr weatherData, t)"
| "collect_temp env (location # rest) weatherData t =
     (case fetchWeather_temp env (latitude location) (longitude location) t of
        (Inl e, t') \<Rightarrow> (Inl e, t')
      | (Inr weather, t') \<Rightarrow>
          collect_temp env rest
            (weatherData @ [\<lparr>r_location = name location,
                             r_latitude = latitude location,
                             r_longitude = longitude location,
                             r_temperature = temperature_temp weather\<rparr>]) t')"

text \<open>\<^verbatim>\<open>location.area || 'Other'\<close>: an absent or empty label is falsy.\<close>

definition area_or_other :: "'n location \<Rightarrow> string" where
  "area_or_other location =
     (case area location of None \<Rightarrow> ''Other'' | Some a \<Rightarrow> if a = [] then ''Other'' else a)"

text \<open>
  A JavaScript object with string keys: its own properties in the order they were
  created. A lookup \<^verbatim>\<open>acc[area]\<close> that finds no own property continues in
  \<^verbatim>\<open>Object.prototype\<close>, whose properties are functions (and, for \<^verbatim>\<open>__proto__\<close>, the
  prototype itself): truthy values with no \<^verbatim>\<open>push\<close>.
\<close>

type_synonym 'v js_object = "(string \<times> 'v) list"

definition object_prototype_keys :: "string list" where
  "object_prototype_keys =
     [''constructor'', ''__defineGetter__'', ''__defineSetter__'', ''hasOwnProperty'',
      ''__lookupGetter__'', ''__lookupSetter__'', ''isPrototypeOf'', ''propertyIsEnumerable'',
      ''toString'', ''valueOf'', ''__proto__'', ''toLocaleString'']"

text \<open>The reducer of \<^verbatim>\<open>locations.reduce\<close> in \<^verbatim>\<open>main\<close>.\<close>

definition group_step ::
  "'n location list js_object \<Rightarrow> 'n location \<Rightarrow> error + 'n location list js_object" where
  "group_step acc location =
     (let areaKey = area_or_other location
      in (case map_of acc areaKey of
            Some areaLocations \<Rightarrow> Inr (AList.update areaKey (areaLocations @ [location]) acc)
          | None \<Rightarrow>
              if areaKey \<in> set object_prototype_keys then Inl Type_Error
              else Inr (AList.update areaKey [location] acc)))"

fun reduce_group ::
  "'n location list js_object \<Rightarrow> 'n location list \<Rightarrow> error + 'n location list js_object" where
  "reduce_group acc [] = Inr acc"
| "reduce_group acc (location # rest) =
     (case group_step acc location of
        Inl e \<Rightarrow> Inl e
      | Inr acc' \<Rightarrow> reduce_group acc' rest)"

definition locationsByArea :: "'n location list \<Rightarrow> error + 'n location list js_object" where
  "locationsByArea locations = reduce_group [] locations"

text \<open>
  \<^verbatim>\<open>Object.entries\<close> lists the keys that are array indices first, in ascending numeric
  order, and then the other keys in the order of their creation. An array index is the
  canonical decimal string of an integer below \<open>2\<^sup>3\<^sup>2 - 1\<close>.
\<close>

definition is_digit :: "char \<Rightarrow> bool" where
  "is_digit c = (48 \<le> (of_char c :: nat) \<and> (of_char c :: nat) \<le> 57)"

definition decimal_value :: "string \<Rightarrow> nat" where
  "decimal_value s = foldl (\<lambda>a c. 10 * a + (of_char c - 48)) 0 s"

definition is_array_index :: "string \<Rightarrow> bool" where
  "is_array_index s =
     (s \<noteq> [] \<and> list_all is_digit s \<and> (hd s \<noteq> CHR ''0'' \<or> length s = 1) \<and>
      decimal_value s < 2 ^ 32 - 1)"

definition object_entries :: "'v js_object \<Rightarrow> (string \<times> 'v) list" where
  "object_entries obj =
     sort_key (\<lambda>kv. decimal_value (fst kv)) (filter (\<lambda>kv. is_array_index (fst kv)) obj) @
     filter (\<lambda>kv. \<not> is_array_index (fst kv)) obj"

text \<open>The inner loop of the second revision: \<^verbatim>\<open>for (const location of areaLocations)\<close>.\<close>

fun fetch_area_full ::
  "'n env \<Rightarrow> 'n number_ops \<Rightarrow> 'n location list \<Rightarrow> 'n reading_full list \<Rightarrow> 'n event list \<Rightarrow>
   (error + 'n reading_full list) \<times> 'n event list" where
  "fetch_area_full env ops [] weatherData t = (Inr weatherData, t)"
| "fetch_area_full env ops (location # rest) weatherData t =
     (case fetchWeather_full env ops (latitude location) (longitude location) t of
        (Inl e, t') \<Rightarrow> (Inl e, t')
      | (Inr weather, t') \<Rightarrow>
          fetch_area_full env ops rest
            (weatherData @ [\<lparr>r_location = name location,
                             r_latitude = latitude location,
                             r_longitude = longitude location,
                             r_temperature = temperature weather,
                             r_area = area_or_other location,
                             r_precipitation = precipitation weather,
                             r_cloudCover = cloudCover weather\<rparr>]) t')"

text \<open>
  The outer loop: \<^verbatim>\<open>for (const [area, areaLocations] of Object.entries(locationsByArea))\<close>.
\<close>

fun fetch_areas_full ::
  "'n env \<Rightarrow> 'n number_ops \<Rightarrow> (string \<times> 'n location list) list \<Rightarrow> 'n reading_full list \<Rightarrow>
   'n event list \<Rightarrow> (error + 'n reading_full list) \<times> 'n event list" where
  "fetch_areas_full env ops [] weatherData t = (Inr weatherData, t)"
| "fetch_areas_full env ops ((areaKey, areaLocations) # rest) weatherData t =
     (case fetch_area_full env ops areaLocations weatherData t of
        (Inl e, t') \<Rightarrow> (Inl e, t')
      | (Inr weatherData', t') \<Rightarrow> fetch_areas_full env ops rest weatherData' t')"

text \<open>Grouping and fetching, as \<^verbatim>\<open>main\<close> of the second revision does them.\<close>

definition collect_full ::
  "'n env \<Rightarrow> 'n number_ops \<Rightarrow> 'n location list \<Rightarrow> 'n event list \<Rightarrow>
   (error + 'n reading_full list) \<times> 'n event list" where
  "collect_full env ops locations t =
     (case locationsByArea locations of
        Inl e \<Rightarrow> (Inl e, t)
      | Inr byArea \<Rightarrow> fetch_areas_full env ops (object_entries byArea) [] t)"

section \<open>Sheet Writer\<close>

text \<open>\<^verbatim>\<open>headerResponse.data.values?.[0] || []\<close>\<close>

definition first_row :: "string list list option \<Rightarrow> string list" where
  "first_row vals = (case vals of None \<Rightarrow> [] | Some [] \<Rightarrow> [] | Some (row # _) \<Rightarrow> row)"

text \<open>\<^verbatim>\<open>now.toISOString().split('T')[0]\<close>\<close>

definition iso_date :: "'n env \<Rightarrow> string" where
  "iso_date env = takeWhile (\<lambda>c. c \<noteq> CHR ''T'') (iso_string env)"

text \<open>\<^verbatim>\<open>now.getUTCHours().toString().padStart(2, '0')\<close>\<close>

fun decimal :: "nat \<Rightarrow> string" where
  "decimal n =
     (if n < 10 then [char_of (48 + n)] else decimal (n div 10) @ [char_of (48 + n mod 10)])"

declare decimal.simps [simp del]

definition padStart :: "nat \<Rightarrow> char \<Rightarrow> string \<Rightarrow> string" where
  "padStart n c s = replicate (n - length s) c @ s"

definition utc_hour :: "'n env \<Rightarrow> string" where
  "utc_hour env = padStart 2 (CHR ''0'') (decimal (utc_hours env))"

text \<open>A number that may be \<^verbatim>\<open>undefined\<close>, and one that may be \<^verbatim>\<open>null\<close>, as cells.\<close>

definition or_undefined :: "'n option \<Rightarrow> 'n jsval" where
  "or_undefined x = (case x of None \<Rightarrow> Undefined | Some v \<Rightarrow> Num v)"

definition or_null :: "'n option \<Rightarrow> 'n jsval" where
  "or_null x = (case x of None \<Rightarrow> Null | Some v \<Rightarrow> Num v)"

text \<open>
  A call of \<^verbatim>\<open>sheets.spreadsheets.values.update\<close> and one of \<^verbatim>\<open>append\<close>: the answer
  (\<open>Some e\<close> when the call rejects) and the trace with the call added.
\<close>

definition values_update ::
  "'n env \<Rightarrow> string \<Rightarrow> string list list \<Rightarrow> 'n event list \<Rightarrow> error option \<times> 'n event list" where
  "values_update env rng vals t =
     (let answer = sheets_update env t rng vals
      in (answer, t @ [Sheets_Update rng vals answer]))"

definition values_append ::
  "'n env \<Rightarrow> string \<Rightarrow> 'n jsval list list \<Rightarrow> 'n event list \<Rightarrow> error option \<times> 'n event list" where
  "values_append env rng vals t =
     (let answer = sheets_append env t rng vals
      in (answer, t @ [Sheets_Append rng vals answer]))"

subsection \<open>Long layout, four columns (first revision)\<close>

definition header_temp :: "string list" where
  "header_temp = [''Date'', ''Hour'', ''Location'', ''Temperature'']"

definition row_temp :: "string \<Rightarrow> string \<Rightarrow> ('n, 'a) reading_scheme \<Rightarrow> 'n jsval list" where
  "row_temp date hour weather =
     [Str date, Str hour, Str (r_location weather), or_undefined (r_temperature weather)]"

definition appendToSheet_temp ::
  "'n env \<Rightarrow> 'n location list \<Rightarrow> 'n reading list \<Rightarrow> 'n event list \<Rightarrow>
   error option \<times> 'n event list" where
  "appendToSheet_temp env locations weatherData t =
     (let date = iso_date env;
          hour = utc_hour env;
          headerResponse = sheets_get env t ''Sheet1!A1:D1'';
          t1 = t @ [Sheets_Get ''Sheet1!A1:D1'' headerResponse]
      in (case headerResponse of
            Inl e \<Rightarrow> (Some e, t1)
          | Inr vals \<Rightarrow>
             (let existingHeaders = first_row vals;
                  (created, t2) =
                    (if length existingHeaders = 0
                     then values_update env ''Sheet1!A1'' [header_temp] t1
                     else (None, t1))
              in (case created of
                    Some e \<Rightarrow> (Some e, t2)
                  | None \<Rightarrow>
                      values_append env ''Sheet1!A:D'' (map (row_temp date hour) weatherData) t2))))"

subsection \<open>Long layout, seven columns (second revision)\<close>

definition header_full :: "string list" where
  "header_full =
     [''Date'', ''Hour'', ''Area'', ''Location'', ''Temperature'', ''Precipitation'', ''CloudCover'']"

definition row_full :: "string \<Rightarrow> string \<Rightarrow> 'n reading_full \<Rightarrow> 'n jsval list" where
  "row_full date hour weather =
     [Str date, Str hour, Str (r_area weather), Str (r_location weather),
      or_undefined (r_temperature weather), Num (r_precipitation weather),
      or_null (r_cloudCover weather)]"

definition appendToSheet_full ::
  "'n env \<Rightarrow> 'n location list \<Rightarrow> 'n reading_full list \<Rightarrow> 'n event list \<Rightarrow>
   error option \<times> 'n event list" where
  "appendToSheet_full env locations weatherData t =
     (let date = iso_date env;
          hour = utc_hour env;
          headerResponse = sheets_get env t ''Sheet1!A1:G1'';
          t1 = t @ [Sheets_Get ''Sheet1!A1:G1'' headerResponse]
      in (case headerResponse of
            Inl e \<Rightarrow> (Some e, t1)
          | Inr vals \<Rightarrow>
             (let existingHeaders = first_row vals;
                  (created, t2) =
                    (if length existingHeaders = 0
                     then values_update env ''Sheet1!A1'' [header_full] t1
                     else (None, t1))
              in (case created of
                    Some e \<Rightarrow> (Some e, t2)
                  | None \<Rightarrow>
                      values_append env ''Sheet1!A:G'' (map (row_full date hour) weatherData) t2))))"

subsection \<open>Wide layout (one column per location)\<close>

text \<open>
  \<^verbatim>\<open>currentLocationNames\<close> and \<^verbatim>\<open>newLocationNames\<close>, computed from
  \<^verbatim>\<open>existingHeaders\<close> and the configured locations.
\<close>

definition currentLocationNames :: "string list \<Rightarrow> string list" where
  "currentLocationNames existingHeaders = drop 2 existingHeaders"

definition newLocationNames :: "string list \<Rightarrow> 'n location list \<Rightarrow> string list" where
  "newLocationNames existingHeaders locations =
     filter (\<lambda>n. n \<notin> set (currentLocationNames existingHeaders)) (map name locations)"

text \<open>
  The loop \<^verbatim>\<open>for (let i = 2; i < existingHeaders.length; i++)\<close> that pushes one cell per
  column onto \<^verbatim>\<open>row\<close>.
\<close>

function row_loop ::
  "string list \<Rightarrow> 'n reading list \<Rightarrow> nat \<Rightarrow> 'n jsval list \<Rightarrow> 'n jsval list" where
  "row_loop existingHeaders weatherData i row =
     (if i < length existingHeaders
      then row_loop existingHeaders weatherData (Suc i)
             (row @ [case find (\<lambda>w. r_location w = existingHeaders ! i) weatherData of
                       Some weather \<Rightarrow> or_undefined (r_temperature weather)
                     | None \<Rightarrow> Str []])
      else row)"
  by pat_completeness auto
termination
  by (relation "measure (\<lambda>(existingHeaders, weatherData, i, row). length existingHeaders - i)") auto

declare row_loop.simps [simp del]

definition appendToSheet_wide ::
  "'n env \<Rightarrow> 'n location list \<Rightarrow> 'n reading list \<Rightarrow> 'n event list \<Rightarrow>
   error option \<times> 'n event list" where
  "appendToSheet_wide env locations weatherData t =
     (let date = iso_date env;
          hour = utc_hour env;
          headerResponse = sheets_get env t ''Sheet1!A1:ZZ1'';
          t1 = t @ [Sheets_Get ''Sheet1!A1:ZZ1'' headerResponse]
      in (case headerResponse of
            Inl e \<Rightarrow> (Some e, t1)
          | Inr vals \<Rightarrow>
             (let (created, existingHeaders, t2) =
                    (if length (first_row vals) = 0
                     then (let (answer, t') = values_update env ''Sheet1!A1'' [[''Date'', ''Hour'']] t1
                           in (answer, [''Date'', ''Hour''], t'))
                     else (None, first_row vals, t1))
              in (case created of
                    Some e \<Rightarrow> (Some e, t2)
                  | None \<Rightarrow>
                     (let new = newLocationNames existingHeaders locations;
                          (added, grownHeaders, t3) =
                            (if length new > 0
                             then (let (answer, t') =
                                         values_update env ''Sheet1!A1'' [existingHeaders @ new] t2
                                   in (answer, existingHeaders @ new, t'))
                             else (None, existingHeaders, t2))
                      in (case added of
                            Some e \<Rightarrow> (Some e, t3)
                          | None \<Rightarrow>
                              values_append env ''Sheet1!A:ZZ''
                                [row_loop grownHeaders weatherData 2 [Str date, Str hour]] t3))))))"

subsection \<open>Bulk upload (sample data)\<close>






text \<open>The batches of rows that a trace appends, in the order of the calls.\<close>

fun appended :: "'n event list \<Rightarrow> 'n jsval list list list" where
  "appended [] = []"
| "appended (Sheets_Append rng vals answer # es) = vals # appended es"
| "appended (e # es) = appended es"

section \<open>Orchestrator\<close>

text \<open>
  \<^verbatim>\<open>main\<close> returns normally (\<open>Success\<close>) or catches what was thrown, logs it and calls
  \<^verbatim>\<open>process.exit(1)\<close> (\<open>Failure\<close>). \<open>argv\<close> is \<^verbatim>\<open>process.argv\<close>. The run starts with an
  empty trace.
\<close>

datatype outcome = Success | Failure error

definition main_temp :: "'n env \<Rightarrow> string list \<Rightarrow> outcome \<times> 'n event list" where
  "main_temp env argv =
     (let dryRun = ''--dry-run'' \<in> set argv
      in (case config env of
            Inl e \<Rightarrow> (Failure e, [])
          | Inr locations \<Rightarrow>
             (case collect_temp env locations [] [] of
                (Inl e, t) \<Rightarrow> (Failure e, t)
              | (Inr weatherData, t) \<Rightarrow>
                 (if dryRun then (Success, t)
                  else (case google_credentials env of
                          Some e \<Rightarrow> (Failure e, t)
                        | None \<Rightarrow>
                           (case appendToSheet_temp env locations weatherData t of
                              (Some e, t') \<Rightarrow> (Failure e, t')
                            | (None, t') \<Rightarrow> (Success, t')))))))"

definition main_full :: "'n env \<Rightarrow> 'n number_ops \<Rightarrow> string list \<Rightarrow> outcome \<times> 'n event list" where
  "main_full env ops argv =
     (let dryRun = ''--dry-run'' \<in> set argv
      in (case config env of
            Inl e \<Rightarrow> (Failure e, [])
          | Inr locations \<Rightarrow>
             (case collect_full env ops locations [] of
                (Inl e, t) \<Rightarrow> (Failure e, t)
              | (Inr weatherData, t) \<Rightarrow>
                 (if dryRun then (Success, t)
                  else (case google_credentials env of
                          Some e \<Rightarrow> (Failure e, t)
                        | None \<Rightarrow>
                           (case appendToSheet_full env locations weatherData t of
                              (Some e, t') \<Rightarrow> (Failure e, t')
                            | (None, t') \<Rightarrow> (Success, t')))))))"

section \<open>Observations on traces\<close>

text \<open>
  A call of the spreadsheet API; a fetch from the primary (Nowcast) endpoint; and such a
  fetch that was answered with a non-success status.
\<close>

fun sheets_call :: "'n event \<Rightarrow> bool" where
  "sheets_call (Http_Get e lat lon answer) = False"
| "sheets_call _ = True"

fun primary_fetch :: "'n event \<Rightarrow> bool" where
  "primary_fetch (Http_Get Nowcast lat lon answer) = True"
| "primary_fetch _ = False"

fun failed_primary :: "'n event \<Rightarrow> bool" where
  "failed_primary (Http_Get Nowcast lat lon (Inr r)) = (\<not> ok r)"
| "failed_primary _ = False"

text \<open>
  The events \<open>new\<close> of a fetch phase that ended with \<open>res\<close>: no call of the spreadsheet
  API; and either no failed primary fetch, or exactly one, which is the last event and
  whose status is in the error thrown.
\<close>

definition stops_at_failure :: "error + 'a \<Rightarrow> 'n event list \<Rightarrow> bool" where
  "stops_at_failure res new \<longleftrightarrow>
     (\<forall>e \<in> set new. \<not> sheets_call e) \<and>
     ((\<forall>e \<in> set new. \<not> failed_primary e) \<or>
      (\<exists>pre lat lon r.
         new = pre @ [Http_Get Nowcast lat lon (Inr r)] \<and>
         (\<forall>e \<in> set pre. \<not> failed_primary e) \<and> \<not> ok r \<and>
         res = Inl (Api_Error ''Nowcast API error: '' (status r))))"

text \<open>
  What grouping has achieved after the locations \<open>xs\<close>: the object has one property per
  area that occurs in \<open>xs\<close>, holding the locations of this area in their order in \<open>xs\<close>.
\<close>

definition grouped_by :: "'n location list js_object \<Rightarrow> 'n location list \<Rightarrow> bool" where
  "grouped_by obj xs \<longleftrightarrow>
     distinct (map fst obj) \<and>
     (\<forall>a. map_of obj a =
        (if filter (\<lambda>l. area_or_other l = a) xs = [] then None
         else Some (filter (\<lambda>l. area_or_other l = a) xs)))"

section \<open>The order of fetching, as a specification\<close>

text \<open>
  Fetching area by area, in words: the areas are taken in the order in which
  \<^verbatim>\<open>Object.entries\<close> lists them (labels that are array indices first, in ascending
  numeric order, then the other labels in the order of their first appearance in the
  input), and within an area the locations are taken in the order of the input.
\<close>

definition first_seen :: "'a list \<Rightarrow> 'a list" where
  "first_seen xs = rev (remdups (rev xs))"

definition area_order :: "'n location list \<Rightarrow> string list" where
  "area_order locations =
     sort_key decimal_value (filter is_array_index (first_seen (map area_or_other locations))) @
     filter (\<lambda>a. \<not> is_array_index a) (first_seen (map area_or_other locations))"

definition by_area :: "'n location list \<Rightarrow> 'n location list" where
  "by_area locations =
     concat (map (\<lambda>a. filter (\<lambda>l. area_or_other l = a) locations) (area_order locations))"

text \<open>
  Every fetch succeeds: the primary endpoint always answers with success and a
  non-empty series, and the secondary endpoint always answers, with a non-empty series
  when its status is success.
\<close>

definition fetches_succeed :: "'n env \<Rightarrow> bool" where
  "fetches_succeed env \<longleftrightarrow>
     (\<forall>t lat lon. \<exists>r c cs. http_get env t Nowcast lat lon = Inr r \<and> ok r \<and> json r = Some (c # cs)) \<and>
     (\<forall>t lat lon. \<exists>r. http_get env t Locationforecast lat lon = Inr r \<and>
        (ok r \<longrightarrow> (\<exists>c cs. json r = Some (c # cs))))"

text \<open>The coordinates of the fetches from the primary endpoint in a trace, in order.\<close>

fun primary_coords :: "'n event list \<Rightarrow> ('n \<times> 'n) list" where
  "primary_coords [] = []"
| "primary_coords (Http_Get Nowcast lat lon answer # es) = (lat, lon) # primary_coords es"
| "primary_coords (e # es) = primary_coords es"

section \<open>Concrete inputs\<close>

text \<open>
  Inputs on which the theorems below are instantiated. Numbers are integers here:
  addition, zero, and zero as the only falsy number.
\<close>

definition int_ops :: "int number_ops" where
  "int_ops = \<lparr>num_zero = 0, num_add = (+), num_falsy = (\<lambda>x. x = 0)\<rparr>"

text \<open>An entry with temperature 5 and a next-hour amount, and one without the amount.\<close>

definition rain :: "int \<Rightarrow> int entry" where
  "rain v =
     \<lparr>time = ''2025-12-03T00:00:00Z'', air_temperature = Some 5, cloud_area_fraction = None,
      next_1_hours = Some (Next_Hours (Some (Details (Some v))))\<rparr>"

definition dry :: "int entry" where
  "dry =
     \<lparr>time = ''2025-12-03T01:00:00Z'', air_temperature = Some 4, cloud_area_fraction = None,
      next_1_hours = None\<rparr>"

definition clouds :: "int option \<Rightarrow> int entry" where
  "clouds c =
     \<lparr>time = ''2025-12-03T00:00:00Z'', air_temperature = Some 5, cloud_area_fraction = c,
      next_1_hours = None\<rparr>"

definition eight_hours :: "int entry list" where
  "eight_hours = [rain 1, dry, rain 2, rain 3, dry, rain 4, rain 100, rain 100]"

definition success :: "int entry list \<Rightarrow> int response" where
  "success ts = \<lparr>ok = True, status = 200, json = Some ts\<rparr>"

definition unavailable :: "int response" where
  "unavailable = \<lparr>ok = False, status = 503, json = None\<rparr>"

text \<open>
  A world in which the two endpoints answer every request the same way and the
  spreadsheet, whose first row is \<open>header\<close>, accepts every call.
\<close>

definition world :: "int response \<Rightarrow> int response \<Rightarrow> string list list option \<Rightarrow> int location list \<Rightarrow> int env" where
  "world nowcast forecast header locations =
     \<lparr>config = Inr locations,
      http_get = (\<lambda>t e lat lon. case e of Nowcast \<Rightarrow> Inr nowcast | Locationforecast \<Rightarrow> Inr forecast),
      sheets_get = (\<lambda>t r. Inr header),
      sheets_update = (\<lambda>t r v. None),
      sheets_append = (\<lambda>t r v. None),
      google_credentials = None,
      iso_string = ''2025-12-03T00:00:12.345Z'',
      utc_hours = 0\<rparr>"

text \<open>Two locations and their readings, in both revisions' shapes.\<close>

definition oslo :: "int location" where
  "oslo = \<lparr>name = ''Oslo'', latitude = 59, longitude = 10, area = Some ''East''\<rparr>"

definition bergen :: "int location" where
  "bergen = \<lparr>name = ''Bergen'', latitude = 60, longitude = 5, area = Some ''West''\<rparr>"

definition two_readings :: "int reading list" where
  "two_readings =
     [\<lparr>r_location = ''Oslo'', r_latitude = 59, r_longitude = 10, r_temperature = Some 5\<rparr>,
      \<lparr>r_location = ''Bergen'', r_latitude = 60, r_longitude = 5, r_temperature = Some 7\<rparr>]"



text \<open>A third location, in the area of the first.\<close>

definition drammen :: "int location" where
  "drammen = \<lparr>name = ''Drammen'', latitude = 59, longitude = 10, area = Some ''East''\<rparr>"

text \<open>A world in which every fetch succeeds.\<close>

definition fair_weather :: "int location list \<Rightarrow> int env" where
  "fair_weather locations = world (success eight_hours) (success [clouds (Some 40)]) None locations"

text \<open>
  A location without an area label, and a world in which the weather provider answers
  requests for latitude 60 with a non-success status and all others with success.
\<close>

definition tromso :: "int location" where
  "tromso = \<lparr>name = ''Tromso'', latitude = 69, longitude = 18, area = None\<rparr>"

definition outage_at_60 :: "int location list \<Rightarrow> int env" where
  "outage_at_60 locations =
     \<lparr>config = Inr locations,
      http_get = (\<lambda>t e lat lon.
         if lat = 60 then Inr unavailable
         else (case e of Nowcast \<Rightarrow> Inr (success eight_hours)
                       | Locationforecast \<Rightarrow> Inr (success [clouds (Some 40)]))),
      sheets_get = (\<lambda>t r. Inr None),
      sheets_update = (\<lambda>t r v. None),
      sheets_append = (\<lambda>t r v. None),
      google_credentials = None,
      iso_string = ''2025-12-03T00:00:12.345Z'',
      utc_hours = 0\<rparr>"

text \<open>A location in the area of Oslo, with coordinates of its own.\<close>

definition lillehammer :: "int location" where
  "lillehammer = \<lparr>name = ''Lillehammer'', latitude = 61, longitude = 10, area = Some ''East''\<rparr>"

text \<open>A location whose area label is a property name of \<^verbatim>\<open>Object.prototype\<close>.\<close>

definition nowhere :: "int location" where
  "nowhere = \<lparr>name = ''Nowhere'', latitude = 0, longitude = 0, area = Some ''valueOf''\<rparr>"

text \<open>The sum the specification asks for: an entry without the amount counts as zero.\<close>

definition contribution :: "'n number_ops \<Rightarrow> 'n entry \<Rightarrow> 'n" where
  "contribution ops e = (case next_precipitation e of None \<Rightarrow> num_zero ops | Some v \<Rightarrow> v)"

definition spec_precipitation :: "'n number_ops \<Rightarrow> 'n entry list \<Rightarrow> 'n" where
  "spec_precipitation ops ts =
     foldl (num_add ops) (num_zero ops) (map (contribution ops) (take (min 6 (length ts)) ts))"

section \<open>Properties of the Weather Fetcher\<close>

lemma precipitation_loop_unfold:
  "i < min 6 (length ts) \<Longrightarrow>
   precipitation_loop ops ts i s =
     precipitation_loop ops ts (Suc i)
       (case next_precipitation (ts ! i) of None \<Rightarrow> s | Some v \<Rightarrow> num_add ops s v)"
  by (subst precipitation_loop.simps) (simp only: if_True)

lemma precipitation_loop_done:
  "\<not> i < min 6 (length ts) \<Longrightarrow> precipitation_loop ops ts i s = s"
  by (subst precipitation_loop.simps) (simp only: if_False)

lemma precipitation_loop_foldl:
  "precipitation_loop ops ts i s =
     foldl (num_add ops) s (List.map_filter next_precipitation (drop i (take (min 6 (length ts)) ts)))"
proof (induction ops ts i s rule: precipitation_loop.induct)
  case (1 ops ts i s)
  show ?case
  proof (cases "i < min 6 (length ts)")
    case True
    then have d: "drop i (take (min 6 (length ts)) ts) = ts ! i # drop (Suc i) (take (min 6 (length ts)) ts)"
      by (simp add: Cons_nth_drop_Suc [symmetric])
    show ?thesis
      using 1 [OF True]
      by (simp add: precipitation_loop_unfold [OF True] d split: option.split)
  next
    case False
    then have "min 6 (length ts) \<le> i" by linarith
    then have "drop i (take (min 6 (length ts)) ts) = []" by simp
    with False show ?thesis by (simp add: precipitation_loop_done)
  qed
qed

lemma foldl_contribution:
  assumes "\<forall>x. num_add ops x (num_zero ops) = x"
  shows "foldl (num_add ops) s (map (contribution ops) es) =
         foldl (num_add ops) s (List.map_filter next_precipitation es)"
  using assms
  by (induction es arbitrary: s) (simp_all add: contribution_def split: option.split)

lemma fetchWeather_full_primary_failed:
  assumes "http_get env t Nowcast lat lon = Inr nowcast" "\<not> ok nowcast"
  shows "fetchWeather_full env ops lat lon t =
           (Inl (Api_Error ''Nowcast API error: '' (status nowcast)),
            t @ [Http_Get Nowcast lat lon (Inr nowcast)])"
  using assms by (simp add: fetchWeather_full_def)

lemma fetchWeather_full_primary_ok:
  assumes "http_get env t Nowcast lat lon = Inr nowcast" "ok nowcast"
    "json nowcast = Some (current # rest)"
    "http_get env (t @ [Http_Get Nowcast lat lon (Inr nowcast)]) Locationforecast lat lon = Inr forecast"
  shows "fetchWeather_full env ops lat lon t =
           (if ok forecast
            then (case json forecast of
                    None \<Rightarrow> Inl Body_Error
                  | Some [] \<Rightarrow> Inl Type_Error
                  | Some (forecastCurrent # _) \<Rightarrow>
                      Inr \<lparr>temperature = air_temperature current,
                           precipitation = precipitation_loop ops (current # rest) 0 (num_zero ops),
                           cloudCover = Some (or_zero ops (cloud_area_fraction forecastCurrent)),
                           timestamp = time current\<rparr>)
            else Inr \<lparr>temperature = air_temperature current,
                      precipitation = precipitation_loop ops (current # rest) 0 (num_zero ops),
                      cloudCover = None,
                      timestamp = time current\<rparr>,
            t @ [Http_Get Nowcast lat lon (Inr nowcast), Http_Get Locationforecast lat lon (Inr forecast)])"
  using assms by (simp add: fetchWeather_full_def Let_def split: option.split list.split)

lemma fetchWeather_full_precipitation:
  assumes "fetchWeather_full env ops lat lon t = (Inr w, t')"
    and "http_get env t Nowcast lat lon = Inr nowcast" and "json nowcast = Some ts"
  shows "precipitation w = precipitation_loop ops ts 0 (num_zero ops)"
  using assms
  by (auto simp: fetchWeather_full_def Let_def split: sum.splits if_splits option.splits list.splits)

text \<open>
  Claim C2. When \<^verbatim>\<open>fetchWeather\<close> returns a reading fragment for the series \<open>ts\<close> of the
  Nowcast endpoint, its precipitation is the running sum, from zero and from the first
  entry on, of the \<^verbatim>\<open>next_1_hours\<close> amounts that are present among the first
  \<open>min 6 (length ts)\<close> entries. Where adding zero changes nothing, this is the sum over
  these entries in which an entry without the amount counts as zero.
\<close>

theorem precipitation_sum:
  assumes "http_get env t Nowcast lat lon = Inr nowcast" and "json nowcast = Some ts"
    and "fetchWeather_full env ops lat lon t = (Inr w, t')"
  shows "precipitation w =
           foldl (num_add ops) (num_zero ops)
             (List.map_filter next_precipitation (take (min 6 (length ts)) ts)) \<and>
         ((\<forall>x. num_add ops x (num_zero ops) = x) \<longrightarrow>
            precipitation w = spec_precipitation ops ts)"
proof -
  have "precipitation w = precipitation_loop ops ts 0 (num_zero ops)"
    using assms(3,1,2) by (rule fetchWeather_full_precipitation)
  then have *: "precipitation w =
           foldl (num_add ops) (num_zero ops)
             (List.map_filter next_precipitation (take (min 6 (length ts)) ts))"
    by (simp add: precipitation_loop_foldl)
  then show ?thesis
    by (simp add: spec_precipitation_def foldl_contribution)
qed

lemma demo_fetch:
  "fetchWeather_full (world (success eight_hours) (success [clouds (Some 40)]) None []) int_ops 59 10 [] =
     (Inr \<lparr>temperature = Some 5, precipitation = 10, cloudCover = Some 40,
           timestamp = ''2025-12-03T00:00:00Z''\<rparr>,
      [Http_Get Nowcast 59 10 (Inr (success eight_hours)),
       Http_Get Locationforecast 59 10 (Inr (success [clouds (Some 40)]))])"
  by (simp add: fetchWeather_full_primary_ok [where nowcast = "success eight_hours" and forecast = "success [clouds (Some 40)]" and current = "rain 1" and rest = "tl eight_hours"]
      world_def success_def eight_hours_def precipitation_loop_foldl
      next_precipitation_def rain_def dry_def clouds_def int_ops_def or_zero_def)

text \<open>
  A series of eight entries, two of the first six without the amount: the sum is
  \<open>1 + 0 + 2 + 3 + 0 + 4\<close>, and the last two entries do not count.
\<close>

theorem precipitation_sum_witness:
  "fetchWeather_full (world (success eight_hours) (success [clouds (Some 40)]) None []) int_ops 59 10 [] =
     (Inr \<lparr>temperature = Some 5, precipitation = 10, cloudCover = Some 40,
           timestamp = ''2025-12-03T00:00:00Z''\<rparr>,
      [Http_Get Nowcast 59 10 (Inr (success eight_hours)),
       Http_Get Locationforecast 59 10 (Inr (success [clouds (Some 40)]))]) \<and>
   spec_precipitation int_ops eight_hours = 10 \<and>
   length eight_hours = 8"
proof -
  let ?env = "world (success eight_hours) (success [clouds (Some 40)]) None []"
  have get: "http_get ?env [] Nowcast 59 10 = Inr (success eight_hours)"
    by (simp add: world_def)
  have body: "json (success eight_hours) = Some eight_hours"
    by (simp add: success_def)
  have neutral: "\<forall>x. num_add int_ops x (num_zero int_ops) = x"
    by (simp add: int_ops_def)
  note run = demo_fetch
  from precipitation_sum [OF get body run] neutral
  have "spec_precipitation int_ops eight_hours = 10" by simp
  with run show ?thesis by (simp add: eight_hours_def)
qed

text \<open>
  Claim C4. When the Nowcast endpoint answers with success and a non-empty series, and
  the Locationforecast endpoint answers with a non-success status, \<^verbatim>\<open>fetchWeather\<close>
  still returns a fragment, with the temperature of the first entry and a cloud cover of
  \<^verbatim>\<open>null\<close>. When the Nowcast endpoint answers with a non-success status, the fetch
  throws the error that carries the status.
\<close>

theorem cloud_failure_degrades:
  "(http_get env t Nowcast lat lon = Inr nowcast \<and> ok nowcast \<and>
    json nowcast = Some (current # rest) \<and>
    http_get env (t @ [Http_Get Nowcast lat lon (Inr nowcast)]) Locationforecast lat lon = Inr forecast \<and>
    \<not> ok forecast \<longrightarrow>
      (\<exists>w. fst (fetchWeather_full env ops lat lon t) = Inr w \<and> cloudCover w = None \<and>
           temperature w = air_temperature current)) \<and>
   (http_get env t Nowcast lat lon = Inr nowcast \<and> \<not> ok nowcast \<longrightarrow>
      fst (fetchWeather_full env ops lat lon t) =
        Inl (Api_Error ''Nowcast API error: '' (status nowcast)))"
  by (simp add: fetchWeather_full_primary_ok fetchWeather_full_primary_failed)

theorem cloud_failure_degrades_witness:
  "(\<exists>w. fst (fetchWeather_full (world (success eight_hours) unavailable None []) int_ops 59 10 []) = Inr w \<and>
        cloudCover w = None \<and> temperature w = Some 5) \<and>
   fst (fetchWeather_full (world unavailable (success [clouds (Some 40)]) None []) int_ops 59 10 []) =
     Inl (Api_Error ''Nowcast API error: '' 503)"
proof -
  let ?a = "world (success eight_hours) unavailable None []"
  let ?b = "world unavailable (success [clouds (Some 40)]) None []"
  have a: "http_get ?a [] Nowcast 59 10 = Inr (success eight_hours) \<and> ok (success eight_hours) \<and>
      json (success eight_hours) = Some (rain 1 # tl eight_hours) \<and>
      http_get ?a ([] @ [Http_Get Nowcast 59 10 (Inr (success eight_hours))]) Locationforecast 59 10 = Inr unavailable \<and>
      \<not> ok unavailable"
    by (simp add: world_def success_def unavailable_def eight_hours_def)
  have b: "http_get ?b [] Nowcast 59 10 = Inr unavailable \<and> \<not> ok unavailable"
    by (simp add: world_def unavailable_def)
  have s: "status unavailable = 503" "air_temperature (rain 1) = Some 5"
    by (simp_all add: unavailable_def rain_def)
  from cloud_failure_degrades [of ?a "[]" 59 10 "success eight_hours" "rain 1" "tl eight_hours" unavailable int_ops] a
       cloud_failure_degrades [of ?b "[]" 59 10 unavailable _ _ _ int_ops] b s
  show ?thesis by simp
qed

text \<open>
  Claim C9. When both endpoints answer with success and the first entry of the
  Locationforecast series has no \<^verbatim>\<open>cloud_area_fraction\<close>, or a falsy one, the cloud
  cover of the fragment is the number zero, which is not the \<^verbatim>\<open>null\<close> of a failed
  secondary call.
\<close>

theorem absent_cloud_fraction_is_zero:
  assumes "http_get env t Nowcast lat lon = Inr nowcast" and "ok nowcast"
    and "json nowcast = Some (current # rest)"
    and "http_get env (t @ [Http_Get Nowcast lat lon (Inr nowcast)]) Locationforecast lat lon = Inr forecast"
    and "ok forecast" and "json forecast = Some (forecastCurrent # others)"
    and "cloud_area_fraction forecastCurrent = None \<or>
         (\<exists>v. cloud_area_fraction forecastCurrent = Some v \<and> num_falsy ops v)"
  shows "\<exists>w. fst (fetchWeather_full env ops lat lon t) = Inr w \<and>
             cloudCover w = Some (num_zero ops) \<and> cloudCover w \<noteq> None"
  using assms(5-7)
  by (auto simp: fetchWeather_full_primary_ok [OF assms(1-4)] or_zero_def)

theorem absent_cloud_fraction_is_zero_witness:
  "(\<exists>w. fst (fetchWeather_full (world (success eight_hours) (success [clouds None]) None []) int_ops 59 10 []) = Inr w \<and>
        cloudCover w = Some 0) \<and>
   (\<exists>w. fst (fetchWeather_full (world (success eight_hours) unavailable None []) int_ops 59 10 []) = Inr w \<and>
        cloudCover w = None)"
proof -
  let ?a = "world (success eight_hours) (success [clouds None]) None []"
  let ?b = "world (success eight_hours) unavailable None []"
  have 1: "http_get ?a [] Nowcast 59 10 = Inr (success eight_hours)"
    and 2: "ok (success eight_hours)"
    and 3: "json (success eight_hours) = Some (rain 1 # tl eight_hours)"
    and 4: "http_get ?a ([] @ [Http_Get Nowcast 59 10 (Inr (success eight_hours))]) Locationforecast 59 10 = Inr (success [clouds None])"
    and 5: "ok (success [clouds None])"
    and 6: "json (success [clouds None]) = Some (clouds None # [])"
    and 7: "cloud_area_fraction (clouds None) = None \<or>
         (\<exists>v. cloud_area_fraction (clouds None) = Some v \<and> num_falsy int_ops v)"
    by (simp_all add: world_def success_def eight_hours_def clouds_def)
  have 8: "http_get ?b ([] @ [Http_Get Nowcast 59 10 (Inr (success eight_hours))]) Locationforecast 59 10 = Inr unavailable"
    and 9: "http_get ?b [] Nowcast 59 10 = Inr (success eight_hours)"
    and 10: "\<not> ok unavailable"
    by (simp_all add: world_def unavailable_def)
  have z: "num_zero int_ops = 0" by (simp add: int_ops_def)
  from absent_cloud_fraction_is_zero [OF 1 2 3 4 5 6 7] z
  have a: "\<exists>w. fst (fetchWeather_full ?a int_ops 59 10 []) = Inr w \<and> cloudCover w = Some 0"
    by auto
  have b: "\<exists>w. fst (fetchWeather_full ?b int_ops 59 10 []) = Inr w \<and> cloudCover w = None"
    using 10 by (simp add: fetchWeather_full_primary_ok [OF 9 2 3 8])
  from a b show ?thesis by simp
qed


section \<open>Properties of the Sheet Writer\<close>






lemma char_of_48: "char_of (48 :: nat) = CHR ''0''"
  by code_simp

lemma demo_clock:
  "iso_date (world n f h ls) = ''2025-12-03''" "utc_hour (world n f h ls) = ''00''"
  by (simp_all add: iso_date_def utc_hour_def world_def padStart_def decimal.simps char_of_48)



lemma appended_append [simp]: "appended (xs @ ys) = appended xs @ appended ys"
  by (induction xs rule: appended.induct) simp_all









lemma row_loop_unfold:
  "i < length h \<Longrightarrow>
   row_loop h wd i row =
     row_loop h wd (Suc i)
       (row @ [case find (\<lambda>w. r_location w = h ! i) wd of
                 Some weather \<Rightarrow> or_undefined (r_temperature weather)
               | None \<Rightarrow> Str []])"
  by (subst row_loop.simps) (simp only: if_True)

lemma row_loop_done: "\<not> i < length h \<Longrightarrow> row_loop h wd i row = row"
  by (subst row_loop.simps) (simp only: if_False)

lemma row_loop_map:
  "row_loop h wd i row =
     row @ map (\<lambda>n. case find (\<lambda>w. r_location w = n) wd of
                       Some weather \<Rightarrow> or_undefined (r_temperature weather)
                     | None \<Rightarrow> Str []) (drop i h)"
proof (induction h wd i row rule: row_loop.induct)
  case (1 h wd i row)
  show ?case
  proof (cases "i < length h")
    case True
    then have "drop i h = h ! i # drop (Suc i) h"
      by (simp add: Cons_nth_drop_Suc)
    with 1 [OF True] show ?thesis
      by (simp add: row_loop_unfold [OF True])
  next
    case False
    then show ?thesis by (simp add: row_loop_done)
  qed
qed

lemma find_None_location:
  "(find (\<lambda>w. r_location w = n) wd = None) = (\<forall>w \<in> set wd. r_location w \<noteq> n)"
  by (auto simp: find_None_iff)

lemma row_loop_cells:
  "length (row_loop h wd 2 [d, hr]) = max 2 (length h)"
  "2 \<le> i \<Longrightarrow> i < length h \<Longrightarrow> \<forall>w \<in> set wd. r_location w \<noteq> h ! i \<Longrightarrow>
     row_loop h wd 2 [d, hr] ! i = Str []"
proof -
  show "length (row_loop h wd 2 [d, hr]) = max 2 (length h)"
    by (simp add: row_loop_map)
next
  assume i: "2 \<le> i" "i < length h" and none: "\<forall>w \<in> set wd. r_location w \<noteq> h ! i"
  define j where "j = i - 2"
  with i have j: "i = 2 + j" "j < length (drop 2 h)"
    by simp_all
  with none have "find (\<lambda>w. r_location w = drop 2 h ! j) wd = None"
    by (simp add: find_None_location)
  with j show "row_loop h wd 2 [d, hr] ! i = Str []"
    by (simp add: row_loop_map nth_append)
qed

lemma appendToSheet_wide_trace:
  assumes get: "sheets_get env t ''Sheet1!A1:ZZ1'' = Inr vals"
    and fin: "fst (appendToSheet_wide env locations weatherData t) = None"
    and existing: "existing = (if first_row vals = [] then [''Date'', ''Hour''] else first_row vals)"
    and new: "new = newLocationNames existing locations"
  shows "snd (appendToSheet_wide env locations weatherData t) =
           t @ [Sheets_Get ''Sheet1!A1:ZZ1'' (Inr vals)] @
           (if first_row vals = [] then [Sheets_Update ''Sheet1!A1'' [[''Date'', ''Hour'']] None] else []) @
           (if new = [] then [] else [Sheets_Update ''Sheet1!A1'' [existing @ new] None]) @
           [Sheets_Append ''Sheet1!A:ZZ''
              [row_loop (existing @ new) weatherData 2 [Str (iso_date env), Str (utc_hour env)]] None]"
proof -
  let ?t1 = "t @ [Sheets_Get ''Sheet1!A1:ZZ1'' (Inr vals)]"
  let ?u = "sheets_update env ?t1 ''Sheet1!A1'' [[''Date'', ''Hour'']]"
  let ?t2 = "if first_row vals = [] then ?t1 @ [Sheets_Update ''Sheet1!A1'' [[''Date'', ''Hour'']] ?u] else ?t1"
  let ?v = "sheets_update env ?t2 ''Sheet1!A1'' [existing @ new]"
  let ?t3 = "if new = [] then ?t2 else ?t2 @ [Sheets_Update ''Sheet1!A1'' [existing @ new] ?v]"
  let ?row = "row_loop (existing @ new) weatherData 2 [Str (iso_date env), Str (utc_hour env)]"
  let ?a = "sheets_append env ?t3 ''Sheet1!A:ZZ'' [?row]"
  have run: "appendToSheet_wide env locations weatherData t =
      (if first_row vals = [] \<and> ?u \<noteq> None then (?u, ?t2)
       else if new \<noteq> [] \<and> ?v \<noteq> None then (?v, ?t3)
       else (?a, ?t3 @ [Sheets_Append ''Sheet1!A:ZZ'' [?row] ?a]))"
  proof (cases "first_row vals = []")
    case True
    then show ?thesis
      using get existing new
      by (cases ?u; cases "newLocationNames [''Date'', ''Hour''] locations = []";
          cases "sheets_update env (?t1 @ [Sheets_Update ''Sheet1!A1'' [[''Date'', ''Hour'']] None]) ''Sheet1!A1''
                   [[''Date'', ''Hour''] @ newLocationNames [''Date'', ''Hour''] locations]")
        (simp_all add: appendToSheet_wide_def values_update_def values_append_def Let_def)
  next
    case False
    then show ?thesis
      using get existing new
      by (cases "newLocationNames (first_row vals) locations = []";
          cases "sheets_update env ?t1 ''Sheet1!A1'' [first_row vals @ newLocationNames (first_row vals) locations]")
        (simp_all add: appendToSheet_wide_def values_update_def values_append_def Let_def)
  qed
  show ?thesis
  proof (cases "first_row vals = []")
    case empty: True
    with fin have u: "?u = None" by (cases ?u) (simp_all add: run)
    show ?thesis
    proof (cases "new = []")
      case True
      with fin empty u have "?a = None" by (simp add: run)
      with empty u True show ?thesis by (simp add: run)
    next
      case False
      with fin empty u have v: "?v = None" by (cases ?v) (simp_all add: run)
      with fin empty u False have "?a = None" by (simp add: run)
      with empty u v False show ?thesis by (simp add: run)
    qed
  next
    case filled: False
    show ?thesis
    proof (cases "new = []")
      case True
      with fin filled have "?a = None" by (simp add: run)
      with filled True show ?thesis by (simp add: run)
    next
      case False
      with fin filled have v: "?v = None" by (cases ?v) (simp_all add: run)
      with fin filled False have "?a = None" by (simp add: run)
      with filled v False show ?thesis by (simp add: run)
    qed
  qed
qed


text \<open>
  Claim C10, as amended. In the wide layout, when the sheet accepts every call, the last
  call appends one row. The row has \<open>max 2 (length header)\<close> cells, where \<open>header\<close>
  is the header found (or \<open>Date, Hour\<close> for an empty sheet) grown by the new names:
  as many cells as the header has columns whenever the header has at least two. A column
  from the third on whose name is the location of no reading gets the empty string.
  The claim as stated fails for a header of one cell with no name to add, as the example
  further down shows.
\<close>

theorem wide_row_matches_header:
  assumes "sheets_get env t ''Sheet1!A1:ZZ1'' = Inr vals"
    and "fst (appendToSheet_wide env locations weatherData t) = None"
  shows "\<exists>header row.
           header = (if first_row vals = [] then [''Date'', ''Hour''] else first_row vals) @
                    newLocationNames (if first_row vals = [] then [''Date'', ''Hour''] else first_row vals)
                      locations \<and>
           last (snd (appendToSheet_wide env locations weatherData t)) =
             Sheets_Append ''Sheet1!A:ZZ'' [row] None \<and>
           length row = max 2 (length header) \<and>
           (2 \<le> length header \<longrightarrow> length row = length header) \<and>
           (\<forall>i. 2 \<le> i \<and> i < length header \<and>
                (\<forall>w \<in> set weatherData. r_location w \<noteq> header ! i) \<longrightarrow>
                row ! i = Str [])"
proof -
  define existing where "existing = (if first_row vals = [] then [''Date'', ''Hour''] else first_row vals)"
  define new where "new = newLocationNames existing locations"
  let ?row = "row_loop (existing @ new) weatherData 2 [Str (iso_date env), Str (utc_hour env)]"
  have "last (snd (appendToSheet_wide env locations weatherData t)) =
          Sheets_Append ''Sheet1!A:ZZ'' [?row] None"
    by (simp add: appendToSheet_wide_trace [OF assms(1,2) existing_def new_def])
  moreover have len: "length ?row = max 2 (length (existing @ new))"
    by (rule row_loop_cells(1))
  moreover from len have "2 \<le> length (existing @ new) \<longrightarrow> length ?row = length (existing @ new)"
    by linarith
  moreover have "\<forall>i. 2 \<le> i \<and> i < length (existing @ new) \<and>
                (\<forall>w \<in> set weatherData. r_location w \<noteq> (existing @ new) ! i) \<longrightarrow>
                ?row ! i = Str []"
    using row_loop_cells(2) by blast
  ultimately show ?thesis
    unfolding existing_def [symmetric] new_def [symmetric]
    by (intro exI [of _ "existing @ new"] exI [of _ ?row] conjI refl)
qed

lemma world_answers:
  "config (world n f h ls) = Inr ls"
  "http_get (world n f h ls) t Nowcast lat lon = Inr n"
  "http_get (world n f h ls) t Locationforecast lat lon = Inr f"
  "sheets_get (world n f h ls) t r = Inr h"
  "sheets_update (world n f h ls) t r v = None"
  "sheets_append (world n f h ls) t r w = None"
  "google_credentials (world n f h ls) = None"
  by (simp_all add: world_def)

lemma demo_wide:
  "appendToSheet_wide (world unavailable unavailable (Some [[''Date'', ''Hour'', ''Tromso'', ''Oslo'']]) [])
     [oslo, bergen] two_readings [] =
     (None,
      [Sheets_Get ''Sheet1!A1:ZZ1'' (Inr (Some [[''Date'', ''Hour'', ''Tromso'', ''Oslo'']])),
       Sheets_Update ''Sheet1!A1'' [[''Date'', ''Hour'', ''Tromso'', ''Oslo'', ''Bergen'']] None,
       Sheets_Append ''Sheet1!A:ZZ'' [[Str ''2025-12-03'', Str ''00'', Str [], Num 5, Num 7]] None])"
  by (simp add: appendToSheet_wide_def values_update_def values_append_def Let_def first_row_def
      newLocationNames_def currentLocationNames_def row_loop_map demo_clock world_answers
      oslo_def bergen_def two_readings_def or_undefined_def)






text \<open>
  The same sheet and readings: the row has five cells, and the cell of \<open>Tromso\<close>, for
  which there is no reading, is the empty string.
\<close>

theorem wide_row_matches_header_witness:
  "(\<exists>row.
      last (snd (appendToSheet_wide
                  (world unavailable unavailable (Some [[''Date'', ''Hour'', ''Tromso'', ''Oslo'']]) [])
                  [oslo, bergen] two_readings [])) =
        Sheets_Append ''Sheet1!A:ZZ'' [row] None \<and>
      length row = 5 \<and> row ! 2 = Str []) \<and>
   snd (appendToSheet_wide
          (world unavailable unavailable (Some [[''Date'', ''Hour'', ''Tromso'', ''Oslo'']]) [])
          [oslo, bergen] two_readings []) =
     [Sheets_Get ''Sheet1!A1:ZZ1'' (Inr (Some [[''Date'', ''Hour'', ''Tromso'', ''Oslo'']])),
      Sheets_Update ''Sheet1!A1'' [[''Date'', ''Hour'', ''Tromso'', ''Oslo'', ''Bergen'']] None,
      Sheets_Append ''Sheet1!A:ZZ'' [[Str ''2025-12-03'', Str ''00'', Str [], Num 5, Num 7]] None]"
proof -
  let ?w = "world unavailable unavailable (Some [[''Date'', ''Hour'', ''Tromso'', ''Oslo'']]) []"
  have 1: "sheets_get ?w [] ''Sheet1!A1:ZZ1'' = Inr (Some [[''Date'', ''Hour'', ''Tromso'', ''Oslo'']])"
    by (simp add: world_answers)
  have 2: "fst (appendToSheet_wide ?w [oslo, bergen] two_readings []) = None"
    by (simp add: demo_wide)
  have 4: "(if first_row (Some [[''Date'', ''Hour'', ''Tromso'', ''Oslo'']]) = [] then [''Date'', ''Hour'']
            else first_row (Some [[''Date'', ''Hour'', ''Tromso'', ''Oslo'']])) @
           newLocationNames
             (if first_row (Some [[''Date'', ''Hour'', ''Tromso'', ''Oslo'']]) = [] then [''Date'', ''Hour'']
              else first_row (Some [[''Date'', ''Hour'', ''Tromso'', ''Oslo'']])) [oslo, bergen] =
           [''Date'', ''Hour'', ''Tromso'', ''Oslo'', ''Bergen'']"
    by (simp add: first_row_def newLocationNames_def currentLocationNames_def oslo_def bergen_def)
  have 5: "\<forall>w \<in> set two_readings. r_location w \<noteq> [''Date'', ''Hour'', ''Tromso'', ''Oslo'', ''Bergen''] ! 2"
    by (simp add: two_readings_def)
  from wide_row_matches_header [OF 1 2, unfolded 4]
  obtain row where row: "last (snd (appendToSheet_wide ?w [oslo, bergen] two_readings [])) =
        Sheets_Append ''Sheet1!A:ZZ'' [row] None"
    "2 \<le> length [''Date'', ''Hour'', ''Tromso'', ''Oslo'', ''Bergen''] \<longrightarrow>
       length row = length [''Date'', ''Hour'', ''Tromso'', ''Oslo'', ''Bergen'']"
    "\<forall>i. 2 \<le> i \<and> i < length [''Date'', ''Hour'', ''Tromso'', ''Oslo'', ''Bergen''] \<and>
                (\<forall>w \<in> set two_readings. r_location w \<noteq> [''Date'', ''Hour'', ''Tromso'', ''Oslo'', ''Bergen''] ! i) \<longrightarrow>
                row ! i = Str []"
    by (elim exE conjE) (rule that, simp_all only:)
  from row(3) [rule_format, of 2] 5 have "row ! 2 = Str []" by simp
  moreover from row(2) have "length row = 5" by simp
  ultimately have "\<exists>row.
      last (snd (appendToSheet_wide ?w [oslo, bergen] two_readings [])) =
        Sheets_Append ''Sheet1!A:ZZ'' [row] None \<and>
      length row = 5 \<and> row ! 2 = Str []"
    using row(1) by (intro exI [of _ row] conjI)
  then show ?thesis by (simp add: demo_wide)
qed

text \<open>
  The claim C10 as stated is false at a sheet whose first row is the single cell
  \<open>Date\<close>, with no location configured and no reading: nothing is added to the header,
  which keeps its one column, and the row appended has the two cells of date and hour.
\<close>

theorem one_cell_header_counterexample:
  "appendToSheet_wide (world unavailable unavailable (Some [[''Date'']]) []) [] [] [] =
     (None,
      [Sheets_Get ''Sheet1!A1:ZZ1'' (Inr (Some [[''Date'']])),
       Sheets_Append ''Sheet1!A:ZZ'' [[Str ''2025-12-03'', Str ''00'']] None]) \<and>
   first_row (Some [[''Date'']]) @ newLocationNames (first_row (Some [[''Date'']])) [] = [''Date''] \<and>
   length [Str ''2025-12-03'', Str ''00'' :: int jsval] \<noteq> length [''Date'']"
  by (simp add: appendToSheet_wide_def values_update_def values_append_def Let_def first_row_def
      newLocationNames_def currentLocationNames_def row_loop_map demo_clock world_answers)

section \<open>Properties of the Reading Collector\<close>

subsection \<open>Grouping by area\<close>

lemma group_step_map_of:
  assumes "group_step acc l = Inr acc'"
  shows "map_of acc' =
           (map_of acc)(area_or_other l \<mapsto>
              (case map_of acc (area_or_other l) of None \<Rightarrow> [l] | Some v \<Rightarrow> v @ [l]))"
    and "distinct (map fst acc) \<Longrightarrow> distinct (map fst acc')"
  using assms
  by (auto simp: group_step_def Let_def update_conv' distinct_update split: option.splits if_splits)

lemma grouped_by_step:
  assumes "grouped_by acc xs" and "group_step acc l = Inr acc'"
  shows "grouped_by acc' (xs @ [l])"
proof -
  from assms(1) have d: "distinct (map fst acc)"
    and m: "\<And>a. map_of acc a =
        (if filter (\<lambda>l. area_or_other l = a) xs = [] then None
         else Some (filter (\<lambda>l. area_or_other l = a) xs))"
    by (simp_all add: grouped_by_def)
  have "map_of acc' a =
        (if filter (\<lambda>l. area_or_other l = a) (xs @ [l]) = [] then None
         else Some (filter (\<lambda>l. area_or_other l = a) (xs @ [l])))" for a
    by (simp add: group_step_map_of(1) [OF assms(2)] m)
  with group_step_map_of(2) [OF assms(2) d] show ?thesis
    by (simp add: grouped_by_def)
qed

lemma reduce_group_grouped:
  "reduce_group acc ls = Inr obj \<Longrightarrow> grouped_by acc xs \<Longrightarrow> grouped_by obj (xs @ ls)"
proof (induction ls arbitrary: acc xs)
  case Nil
  then show ?case by simp
next
  case (Cons l ls)
  from Cons.prems(1) obtain acc' where s: "group_step acc l = Inr acc'"
    and r: "reduce_group acc' ls = Inr obj"
    by (auto split: sum.splits)
  from Cons.IH [OF r grouped_by_step [OF Cons.prems(2) s]] show ?case by simp
qed

lemma locationsByArea_grouped:
  "locationsByArea locations = Inr obj \<Longrightarrow> grouped_by obj locations"
  using reduce_group_grouped [of "[]" locations obj "[]"]
  by (simp add: locationsByArea_def grouped_by_def)

lemma mset_object_entries: "mset (object_entries obj) = mset obj"
  by (simp add: object_entries_def multiset_partition [symmetric])

lemma object_entries_map_of:
  assumes "distinct (map fst obj)"
  shows "distinct (map fst (object_entries obj))"
    and "map_of (object_entries obj) = map_of obj"
proof -
  have "mset (map fst (object_entries obj)) = mset (map fst obj)"
    by (simp only: mset_map mset_object_entries)
  from mset_eq_imp_distinct_iff [OF this] assms
  show d: "distinct (map fst (object_entries obj))"
    by (rule iffD2)
  have "set (object_entries obj) = set obj"
    using mset_object_entries [of obj] by (rule mset_eq_setD)
  with map_of_inject_set [OF d assms] show "map_of (object_entries obj) = map_of obj"
    by (rule iffD2)
qed

lemma object_entries_no_index:
  assumes "\<forall>k \<in> fst ` set obj. \<not> is_array_index k"
  shows "object_entries obj = obj"
proof -
  from assms have "filter (\<lambda>kv. is_array_index (fst kv)) obj = []"
    by (auto simp: filter_empty_conv)
  moreover from assms have "filter (\<lambda>kv. \<not> is_array_index (fst kv)) obj = obj"
    by (auto simp: filter_id_conv)
  ultimately show ?thesis by (simp add: object_entries_def)
qed

lemma filter_concat_alist:
  assumes "distinct (map fst E)"
    and "\<forall>kv \<in> set E. \<forall>l \<in> set (snd kv). f l = fst kv"
  shows "filter (\<lambda>l. f l = a) (concat (map snd E)) =
           (case map_of E a of None \<Rightarrow> [] | Some v \<Rightarrow> v)"
  using assms
proof (induction E)
  case Nil
  then show ?case by simp
next
  case (Cons kv E)
  obtain k v where kv: "kv = (k, v)" by (cases kv)
  from Cons.prems kv have v: "\<forall>l \<in> set v. f l = k" by simp
  from Cons.prems kv have IH: "filter (\<lambda>l. f l = a) (concat (map snd E)) =
           (case map_of E a of None \<Rightarrow> [] | Some v \<Rightarrow> v)"
    by (intro Cons.IH) simp_all
  show ?case
  proof (cases "a = k")
    case True
    with Cons.prems(1) kv have "map_of E a = None"
      by (simp add: map_of_eq_None_iff)
    moreover from v True have "filter (\<lambda>l. f l = a) v = v"
      by (simp add: filter_id_conv)
    ultimately show ?thesis using IH kv True by simp
  next
    case False
    with v have "filter (\<lambda>l. f l = a) v = []"
      by (auto simp: filter_empty_conv)
    with IH kv False show ?thesis by simp
  qed
qed

lemma grouped_by_members:
  assumes "grouped_by obj xs" and "kv \<in> set obj" and "l \<in> set (snd kv)"
  shows "area_or_other l = fst kv"
proof -
  obtain k v where kv: "kv = (k, v)" by (cases kv)
  from assms(1) have d: "distinct (map fst obj)"
    and m: "map_of obj k =
        (if filter (\<lambda>l. area_or_other l = k) xs = [] then None
         else Some (filter (\<lambda>l. area_or_other l = k) xs))"
    by (simp_all add: grouped_by_def)
  from d assms(2) kv have "map_of obj k = Some v" by simp
  with m have "v = filter (\<lambda>l. area_or_other l = k) xs"
    by (simp split: if_splits)
  with assms(3) kv show ?thesis by simp
qed

lemma fetch_order_by_area:
  assumes "locationsByArea locations = Inr obj"
  shows "filter (\<lambda>l. area_or_other l = a) (concat (map snd (object_entries obj))) =
         filter (\<lambda>l. area_or_other l = a) locations"
proof -
  note g = locationsByArea_grouped [OF assms]
  then have d: "distinct (map fst obj)" by (simp add: grouped_by_def)
  have "set (object_entries obj) = set obj"
    using mset_object_entries [of obj] by (rule mset_eq_setD)
  with g have "\<forall>kv \<in> set (object_entries obj). \<forall>l \<in> set (snd kv). area_or_other l = fst kv"
    by (auto dest: grouped_by_members)
  with object_entries_map_of [OF d]
  have "filter (\<lambda>l. area_or_other l = a) (concat (map snd (object_entries obj))) =
          (case map_of obj a of None \<Rightarrow> [] | Some v \<Rightarrow> v)"
    by (simp add: filter_concat_alist)
  with g show ?thesis by (simp add: grouped_by_def)
qed

lemma mset_eq_by_classes:
  assumes "\<And>a. filter (\<lambda>x. f x = a) xs = filter (\<lambda>x. f x = a) ys"
  shows "mset xs = mset ys"
proof (rule multiset_eqI)
  fix x
  have "count (mset xs) x = count (mset (filter (\<lambda>y. f y = f x) xs)) x" by simp
  also have "\<dots> = count (mset (filter (\<lambda>y. f y = f x) ys)) x" by (simp only: assms)
  also have "\<dots> = count (mset ys) x" by simp
  finally show "count (mset xs) x = count (mset ys) x" .
qed

lemma fetch_order_mset:
  assumes "locationsByArea locations = Inr obj"
  shows "mset (concat (map snd (object_entries obj))) = mset locations"
  by (rule mset_eq_by_classes [where f = area_or_other]) (rule fetch_order_by_area [OF assms])

subsection \<open>Input listed area by area\<close>

lemma remdups_adj_snoc:
  "remdups_adj (ys @ [y]) =
     (if ys \<noteq> [] \<and> last ys = y then remdups_adj ys else remdups_adj ys @ [y])"
proof (cases ys rule: rev_cases)
  case Nil
  then show ?thesis by simp
next
  case (snoc zs z)
  then show ?thesis by (simp add: remdups_adj_append_two)
qed

lemma distinct_remdups_adj_prefix:
  "distinct (remdups_adj (as @ bs)) \<Longrightarrow> distinct (remdups_adj as)"
proof (induction bs rule: rev_induct)
  case Nil
  then show ?case by simp
next
  case (snoc b bs)
  from snoc.prems have "distinct (remdups_adj (as @ bs))"
    using remdups_adj_snoc [of "as @ bs" b] by (simp split: if_splits)
  then show ?case by (rule snoc.IH)
qed

lemma seen_area_is_last:
  assumes "distinct (remdups_adj (ys @ [y]))" and "y \<in> set ys"
  shows "last ys = y"
proof (rule ccontr)
  assume "last ys \<noteq> y"
  then have "remdups_adj (ys @ [y]) = remdups_adj ys @ [y]"
    by (simp add: remdups_adj_snoc)
  with assms(1) have "y \<notin> set (remdups_adj ys)" by simp
  with assms(2) show False by simp
qed

lemma update_absent:
  "k \<notin> fst ` set al \<Longrightarrow> AList.update k v al = al @ [(k, v)]"
  by (induction al) auto

lemma update_last_key:
  "k \<notin> fst ` set al \<Longrightarrow> AList.update k v (al @ [(k, w)]) = al @ [(k, v)]"
  by (induction al) auto

lemma group_step_in_order:
  assumes step: "group_step acc l = Inr acc'"
    and g: "grouped_by acc xs"
    and c: "concat (map snd acc) = xs"
    and lst: "xs \<noteq> [] \<longrightarrow> acc \<noteq> [] \<and> fst (last acc) = area_or_other (last xs)"
    and d: "distinct (remdups_adj (map area_or_other (xs @ [l])))"
  shows "concat (map snd acc') = xs @ [l] \<and> acc' \<noteq> [] \<and> fst (last acc') = area_or_other l"
proof (cases "map_of acc (area_or_other l)")
  case None
  then have "area_or_other l \<notin> fst ` set acc"
    by (simp add: map_of_eq_None_iff)
  then have "AList.update (area_or_other l) [l] acc = acc @ [(area_or_other l, [l])]"
    by (rule update_absent)
  moreover from step None have "acc' = AList.update (area_or_other l) [l] acc"
    by (simp add: group_step_def Let_def split: if_splits)
  ultimately have "acc' = acc @ [(area_or_other l, [l])]" by simp
  with c show ?thesis by simp
next
  case (Some v)
  with g have "filter (\<lambda>x. area_or_other x = area_or_other l) xs \<noteq> []"
    by (simp add: grouped_by_def split: if_splits)
  then have seen: "area_or_other l \<in> set (map area_or_other xs)"
    by (auto simp: filter_empty_conv intro: rev_image_eqI)
  then have ne: "xs \<noteq> []" by auto
  from d have "distinct (remdups_adj (map area_or_other xs @ [area_or_other l]))" by simp
  from seen_area_is_last [OF this seen] ne
  have "area_or_other (last xs) = area_or_other l"
    by (simp add: last_map)
  with lst ne have acc: "acc \<noteq> []" "fst (last acc) = area_or_other l" by simp_all
  then obtain acc0 w where split: "acc = acc0 @ [(area_or_other l, w)]"
    by (cases acc rule: rev_cases) auto
  from g have "distinct (map fst acc)" by (simp add: grouped_by_def)
  with split have absent: "area_or_other l \<notin> fst ` set acc0" by auto
  with Some split have "w = v"
    by (simp add: map_of_append map_of_eq_None_iff [THEN iffD2] map_add_def
        split: option.splits)
  from update_last_key [OF absent, of "v @ [l]" w] split
  have "AList.update (area_or_other l) (v @ [l]) acc = acc0 @ [(area_or_other l, v @ [l])]"
    by simp
  moreover from step Some have "acc' = AList.update (area_or_other l) (v @ [l]) acc"
    by (simp add: group_step_def Let_def)
  ultimately have "acc' = acc0 @ [(area_or_other l, v @ [l])]" by simp
  moreover from c split \<open>w = v\<close> have "concat (map snd acc0) @ v = xs" by simp
  ultimately show ?thesis by auto
qed

lemma reduce_group_in_order:
  "reduce_group acc ls = Inr obj \<Longrightarrow> grouped_by acc xs \<Longrightarrow> concat (map snd acc) = xs \<Longrightarrow>
   (xs \<noteq> [] \<longrightarrow> acc \<noteq> [] \<and> fst (last acc) = area_or_other (last xs)) \<Longrightarrow>
   distinct (remdups_adj (map area_or_other (xs @ ls))) \<Longrightarrow>
   concat (map snd obj) = xs @ ls"
proof (induction ls arbitrary: acc xs)
  case Nil
  then show ?case by simp
next
  case (Cons l ls)
  from Cons.prems(1) obtain acc' where s: "group_step acc l = Inr acc'"
    and r: "reduce_group acc' ls = Inr obj"
    by (auto split: sum.splits)
  from Cons.prems(5) have "distinct (remdups_adj (map area_or_other (xs @ [l]) @ map area_or_other ls))"
    by simp
  then have d: "distinct (remdups_adj (map area_or_other (xs @ [l])))"
    by (rule distinct_remdups_adj_prefix)
  note step = group_step_in_order [OF s Cons.prems(2,3,4) d]
  have "concat (map snd obj) = (xs @ [l]) @ ls"
  proof (rule Cons.IH [OF r grouped_by_step [OF Cons.prems(2) s]])
    show "concat (map snd acc') = xs @ [l]" using step by simp
    show "xs @ [l] \<noteq> [] \<longrightarrow> acc' \<noteq> [] \<and> fst (last acc') = area_or_other (last (xs @ [l]))"
      using step by simp
    show "distinct (remdups_adj (map area_or_other ((xs @ [l]) @ ls)))"
      using Cons.prems(5) by simp
  qed
  then show ?case by simp
qed

lemma grouped_by_keys:
  assumes "grouped_by obj xs"
  shows "fst ` set obj = area_or_other ` set xs"
proof -
  from assms have m: "\<And>a. map_of obj a =
        (if filter (\<lambda>l. area_or_other l = a) xs = [] then None
         else Some (filter (\<lambda>l. area_or_other l = a) xs))"
    by (simp add: grouped_by_def)
  have "a \<in> fst ` set obj \<longleftrightarrow> a \<in> area_or_other ` set xs" for a
  proof -
    have "a \<in> fst ` set obj \<longleftrightarrow> map_of obj a \<noteq> None"
      by (simp add: map_of_eq_None_iff)
    also have "\<dots> \<longleftrightarrow> filter (\<lambda>l. area_or_other l = a) xs \<noteq> []"
      by (simp add: m)
    also have "\<dots> \<longleftrightarrow> a \<in> area_or_other ` set xs"
      by (auto simp: filter_empty_conv)
    finally show ?thesis .
  qed
  then show ?thesis by blast
qed

lemma fetch_order_listed_by_area:
  assumes "locationsByArea locations = Inr obj"
    and "distinct (remdups_adj (map area_or_other locations))"
    and "\<forall>l \<in> set locations. \<not> is_array_index (area_or_other l)"
  shows "concat (map snd (object_entries obj)) = locations"
proof -
  have e: "grouped_by [] ([] :: 'a location list)" by (simp add: grouped_by_def)
  from assms(1) have r: "reduce_group [] locations = Inr obj"
    by (simp add: locationsByArea_def)
  from reduce_group_in_order [OF r e] assms(2)
  have c: "concat (map snd obj) = locations" by simp
  from grouped_by_keys [OF locationsByArea_grouped [OF assms(1)]] assms(3)
  have "\<forall>k \<in> fst ` set obj. \<not> is_array_index k" by auto
  from object_entries_no_index [OF this] c show ?thesis by simp
qed


subsection \<open>The order of the readings\<close>

lemma fetch_area_full_keys:
  "fetch_area_full env ops ls wd t = (Inr rs, t') \<Longrightarrow>
   map (\<lambda>r. (r_area r, r_location r)) rs =
     map (\<lambda>r. (r_area r, r_location r)) wd @ map (\<lambda>l. (area_or_other l, name l)) ls"
proof (induction ls arbitrary: wd t)
  case Nil
  then show ?case by simp
next
  case (Cons l ls)
  obtain res t1 where f: "fetchWeather_full env ops (latitude l) (longitude l) t = (res, t1)"
    by (cases "fetchWeather_full env ops (latitude l) (longitude l) t")
  with Cons.prems obtain w where w: "res = Inr w"
    by (cases res) simp_all
  from Cons.prems f w Cons.IH show ?case by simp
qed

lemma fetch_areas_full_keys:
  "fetch_areas_full env ops E wd t = (Inr rs, t') \<Longrightarrow>
   map (\<lambda>r. (r_area r, r_location r)) rs =
     map (\<lambda>r. (r_area r, r_location r)) wd @
     map (\<lambda>l. (area_or_other l, name l)) (concat (map snd E))"
proof (induction E arbitrary: wd t)
  case Nil
  then show ?case by simp
next
  case (Cons kv E)
  obtain k ls where kv: "kv = (k, ls)" by (cases kv)
  obtain res t1 where f: "fetch_area_full env ops ls wd t = (res, t1)"
    by (cases "fetch_area_full env ops ls wd t")
  with Cons.prems kv obtain wd' where w: "res = Inr wd'"
    by (cases res) simp_all
  from Cons.prems kv f w have "fetch_areas_full env ops E wd' t1 = (Inr rs, t')" by simp
  from Cons.IH [OF this] fetch_area_full_keys [OF f [unfolded w]] kv show ?case by simp
qed

lemma collect_full_keys:
  assumes "collect_full env ops locations t = (Inr rs, t')"
  obtains obj where "locationsByArea locations = Inr obj"
    and "map (\<lambda>r. (r_area r, r_location r)) rs =
         map (\<lambda>l. (area_or_other l, name l)) (concat (map snd (object_entries obj)))"
proof (cases "locationsByArea locations")
  case (Inl e)
  with assms show ?thesis by (simp add: collect_full_def)
next
  case (Inr obj)
  with assms have "fetch_areas_full env ops (object_entries obj) [] t = (Inr rs, t')"
    by (simp add: collect_full_def)
  from fetch_areas_full_keys [OF this] Inr that show ?thesis by simp
qed

lemma collect_temp_names:
  "collect_temp env ls wd t = (Inr rs, t') \<Longrightarrow>
   map r_location rs = map r_location wd @ map name ls"
proof (induction ls arbitrary: wd t)
  case Nil
  then show ?case by simp
next
  case (Cons l ls)
  obtain res t1 where f: "fetchWeather_temp env (latitude l) (longitude l) t = (res, t1)"
    by (cases "fetchWeather_temp env (latitude l) (longitude l) t")
  with Cons.prems obtain w where w: "res = Inr w"
    by (cases res) simp_all
  from Cons.prems f w Cons.IH show ?case by simp
qed

lemma names_of_keys:
  "map r_location rs = map snd (map (\<lambda>r. (r_area r, r_location r)) rs)"
  "map name ls = map snd (map (\<lambda>l. (area_or_other l, name l)) ls)"
  "map (\<lambda>r. (r_area r, r_location r)) (filter (\<lambda>r. r_area r = a) rs) =
     filter (\<lambda>p. fst p = a) (map (\<lambda>r. (r_area r, r_location r)) rs)"
  "map (\<lambda>l. (area_or_other l, name l)) (filter (\<lambda>l. area_or_other l = a) ls) =
     filter (\<lambda>p. fst p = a) (map (\<lambda>l. (area_or_other l, name l)) ls)"
  by (simp_all add: filter_map comp_def)

subsection \<open>The order of fetching is area by area\<close>

lemma first_seen_snoc:
  "first_seen (xs @ [a]) = (if a \<in> set xs then first_seen xs else first_seen xs @ [a])"
  by (simp add: first_seen_def)

lemma set_first_seen: "set (first_seen xs) = set xs"
  by (simp add: first_seen_def)

lemma group_step_keys:
  assumes "group_step acc l = Inr acc'"
  shows "map fst acc' =
           (if area_or_other l \<in> set (map fst acc) then map fst acc
            else map fst acc @ [area_or_other l])"
proof -
  from assms obtain v where "acc' = AList.update (area_or_other l) v acc"
    by (auto simp: group_step_def Let_def split: option.splits if_splits)
  then show ?thesis by (simp only: update_keys)
qed

lemma reduce_group_keys:
  "reduce_group acc ls = Inr obj \<Longrightarrow> map fst acc = first_seen (map area_or_other xs) \<Longrightarrow>
   map fst obj = first_seen (map area_or_other (xs @ ls))"
proof (induction ls arbitrary: acc xs)
  case Nil
  then show ?case by simp
next
  case (Cons l ls)
  from Cons.prems(1) obtain acc' where s: "group_step acc l = Inr acc'"
    and r: "reduce_group acc' ls = Inr obj"
    by (auto split: sum.splits)
  have "map fst acc' = first_seen (map area_or_other (xs @ [l]))"
    using group_step_keys [OF s] Cons.prems(2)
    by (simp add: first_seen_snoc set_first_seen)
  from Cons.IH [OF r this] show ?case by simp
qed

lemma grouped_by_as_map:
  assumes "grouped_by obj xs"
  shows "obj = map (\<lambda>k. (k, filter (\<lambda>l. area_or_other l = k) xs)) (map fst obj)"
proof -
  have "kv = (fst kv, filter (\<lambda>l. area_or_other l = fst kv) xs)" if "kv \<in> set obj" for kv
  proof -
    obtain k v where kv: "kv = (k, v)" by (cases kv)
    from assms have d: "distinct (map fst obj)"
      and m: "map_of obj k =
        (if filter (\<lambda>l. area_or_other l = k) xs = [] then None
         else Some (filter (\<lambda>l. area_or_other l = k) xs))"
      by (simp_all add: grouped_by_def)
    from d that kv have "map_of obj k = Some v" by simp
    with m have "v = filter (\<lambda>l. area_or_other l = k) xs"
      by (simp split: if_splits)
    with kv show ?thesis by simp
  qed
  then have "map (\<lambda>kv. (fst kv, filter (\<lambda>l. area_or_other l = fst kv) xs)) obj = obj"
    by (intro map_idI) simp
  then show ?thesis by (simp add: comp_def)
qed

lemma insort_key_map_fst:
  "insort_key (\<lambda>kv. f (fst kv)) (k, F k) (map (\<lambda>k. (k, F k)) ks) =
   map (\<lambda>k. (k, F k)) (insort_key f k ks)"
  by (induction ks) simp_all

lemma sort_key_map_fst:
  "sort_key (\<lambda>kv. f (fst kv)) (map (\<lambda>k. (k, F k)) ks) = map (\<lambda>k. (k, F k)) (sort_key f ks)"
  by (induction ks) (simp_all add: insort_key_map_fst)

lemma object_entries_as_map:
  "object_entries (map (\<lambda>k. (k, F k)) ks) =
   map (\<lambda>k. (k, F k))
     (sort_key decimal_value (filter is_array_index ks) @ filter (\<lambda>a. \<not> is_array_index a) ks)"
  by (simp add: object_entries_def filter_map comp_def sort_key_map_fst)

lemma fetch_order_is_by_area:
  assumes "locationsByArea locations = Inr obj"
  shows "concat (map snd (object_entries obj)) = by_area locations"
proof -
  from assms have r: "reduce_group [] locations = Inr obj"
    by (simp add: locationsByArea_def)
  have "map fst ([] :: 'a location list js_object) = first_seen (map area_or_other [])"
    by (simp add: first_seen_def)
  from reduce_group_keys [OF r this]
  have keys: "map fst obj = first_seen (map area_or_other locations)" by simp
  from grouped_by_as_map [OF locationsByArea_grouped [OF assms]] keys
  have "obj = map (\<lambda>k. (k, filter (\<lambda>l. area_or_other l = k) locations))
                (first_seen (map area_or_other locations))"
    by simp
  then have "object_entries obj =
      map (\<lambda>k. (k, filter (\<lambda>l. area_or_other l = k) locations)) (area_order locations)"
    by (simp only: object_entries_as_map area_order_def)
  then show ?thesis by (simp add: by_area_def comp_def)
qed


subsection \<open>When grouping throws, and when the collector returns\<close>

lemma group_step_ok:
  assumes "area_or_other l \<notin> set object_prototype_keys"
  shows "\<exists>acc'. group_step acc l = Inr acc' \<and>
           fst ` set acc' = insert (area_or_other l) (fst ` set acc)"
  using assms
  by (cases "map_of acc (area_or_other l)") (simp_all add: group_step_def Let_def dom_update)

lemma group_step_throws:
  assumes "area_or_other l \<in> set object_prototype_keys"
    and "\<forall>k \<in> fst ` set acc. k \<notin> set object_prototype_keys"
  shows "group_step acc l = Inl Type_Error"
proof -
  from assms have "area_or_other l \<notin> fst ` set acc" by blast
  then have "map_of acc (area_or_other l) = None" by (simp add: map_of_eq_None_iff)
  with assms(1) show ?thesis by (simp add: group_step_def Let_def)
qed

lemma reduce_group_throws:
  "\<exists>l \<in> set ls. area_or_other l \<in> set object_prototype_keys \<Longrightarrow>
   \<forall>k \<in> fst ` set acc. k \<notin> set object_prototype_keys \<Longrightarrow>
   reduce_group acc ls = Inl Type_Error"
proof (induction ls arbitrary: acc)
  case Nil
  then show ?case by simp
next
  case (Cons l ls)
  show ?case
  proof (cases "area_or_other l \<in> set object_prototype_keys")
    case True
    from group_step_throws [OF True Cons.prems(2)] show ?thesis by simp
  next
    case False
    from group_step_ok [OF False, of acc] obtain acc' where s: "group_step acc l = Inr acc'"
      and k: "fst ` set acc' = insert (area_or_other l) (fst ` set acc)"
      by blast
    from k False Cons.prems(2) have "\<forall>k \<in> fst ` set acc'. k \<notin> set object_prototype_keys"
      by auto
    moreover from Cons.prems(1) False
    have "\<exists>l \<in> set ls. area_or_other l \<in> set object_prototype_keys" by auto
    ultimately have "reduce_group acc' ls = Inl Type_Error" by (intro Cons.IH)
    with s show ?thesis by simp
  qed
qed

lemma reduce_group_returns:
  "\<forall>l \<in> set ls. area_or_other l \<notin> set object_prototype_keys \<Longrightarrow>
   \<exists>obj. reduce_group acc ls = Inr obj"
proof (induction ls arbitrary: acc)
  case Nil
  then show ?case by simp
next
  case (Cons l ls)
  from Cons.prems have "area_or_other l \<notin> set object_prototype_keys" by simp
  from group_step_ok [OF this, of acc] obtain acc' where s: "group_step acc l = Inr acc'"
    by blast
  from Cons.prems have "\<forall>l \<in> set ls. area_or_other l \<notin> set object_prototype_keys" by simp
  from Cons.IH [OF this, of acc'] s show ?case by simp
qed

lemma collect_full_throws:
  assumes "\<exists>l \<in> set locations. area_or_other l \<in> set object_prototype_keys"
  shows "collect_full env ops locations t = (Inl Type_Error, t)"
proof -
  from reduce_group_throws [OF assms, of "[]"]
  have "locationsByArea locations = Inl Type_Error"
    by (simp add: locationsByArea_def)
  then show ?thesis by (simp add: collect_full_def)
qed

lemma fetchWeather_full_returns:
  assumes "fetches_succeed env"
  shows "\<exists>w t'. fetchWeather_full env ops lat lon t = (Inr w, t')"
proof -
  from assms obtain r c cs where p: "http_get env t Nowcast lat lon = Inr r" "ok r"
    "json r = Some (c # cs)"
    unfolding fetches_succeed_def by blast
  from assms obtain f where s:
    "http_get env (t @ [Http_Get Nowcast lat lon (Inr r)]) Locationforecast lat lon = Inr f"
    "ok f \<longrightarrow> (\<exists>c cs. json f = Some (c # cs))"
    unfolding fetches_succeed_def by blast
  show ?thesis
  proof (cases "ok f")
    case True
    with s(2) obtain d ds where "json f = Some (d # ds)" by blast
    with True show ?thesis
      by (simp add: fetchWeather_full_primary_ok [OF p s(1)])
  next
    case False
    then show ?thesis
      by (simp add: fetchWeather_full_primary_ok [OF p s(1)])
  qed
qed

lemma fetchWeather_temp_returns:
  assumes "fetches_succeed env"
  shows "\<exists>w t'. fetchWeather_temp env lat lon t = (Inr w, t')"
proof -
  from assms obtain r c cs where "http_get env t Nowcast lat lon = Inr r" "ok r"
    "json r = Some (c # cs)"
    unfolding fetches_succeed_def by blast
  then show ?thesis by (simp add: fetchWeather_temp_def Let_def)
qed

lemma fetch_area_full_returns:
  assumes "fetches_succeed env"
  shows "\<exists>rs t'. fetch_area_full env ops ls wd t = (Inr rs, t')"
proof (induction ls arbitrary: wd t)
  case Nil
  show ?case by simp
next
  case (Cons l ls)
  from fetchWeather_full_returns [OF assms] obtain w t1
    where "fetchWeather_full env ops (latitude l) (longitude l) t = (Inr w, t1)"
    by blast
  with Cons.IH show ?case by simp
qed

lemma fetch_areas_full_returns:
  assumes "fetches_succeed env"
  shows "\<exists>rs t'. fetch_areas_full env ops E wd t = (Inr rs, t')"
proof (induction E arbitrary: wd t)
  case Nil
  show ?case by simp
next
  case (Cons kv E)
  obtain k ls where kv: "kv = (k, ls)" by (cases kv)
  from fetch_area_full_returns [OF assms] obtain rs t1
    where "fetch_area_full env ops ls wd t = (Inr rs, t1)"
    by blast
  with Cons.IH kv show ?case by simp
qed

lemma collect_full_returns:
  assumes "fetches_succeed env"
    and "\<forall>l \<in> set locations. area_or_other l \<notin> set object_prototype_keys"
  shows "\<exists>rs t'. collect_full env ops locations t = (Inr rs, t')"
proof -
  from reduce_group_returns [OF assms(2), of "[]"] obtain obj
    where "locationsByArea locations = Inr obj"
    by (auto simp: locationsByArea_def)
  with fetch_areas_full_returns [OF assms(1), of ops "object_entries obj" "[]" t]
  show ?thesis by (simp add: collect_full_def)
qed

lemma collect_temp_returns:
  assumes "fetches_succeed env"
  shows "\<exists>rs t'. collect_temp env ls wd t = (Inr rs, t')"
proof (induction ls arbitrary: wd t)
  case Nil
  show ?case by simp
next
  case (Cons l ls)
  from fetchWeather_temp_returns [OF assms] obtain w t1
    where "fetchWeather_temp env (latitude l) (longitude l) t = (Inr w, t1)"
    by blast
  with Cons.IH show ?case by simp
qed


subsection \<open>One reading per location\<close>

text \<open>
  Claim C1, as amended. In the first revision, when every fetch succeeds the Reading
  Collector returns, and what it returns is one Reading per Location, in the order of
  the locations. The second revision groups the locations by area before it fetches:
  \<^item> when the area label of some location is a property name of \<^verbatim>\<open>Object.prototype\<close>
    (such as \<^verbatim>\<open>valueOf\<close>), grouping throws a \<^verbatim>\<open>TypeError\<close> before any fetch, and there
    is no Reading;
  \<^item> otherwise, when every fetch succeeds, the collector returns;
  \<^item> what it returns is one Reading per Location, area by area: the Readings are those
    of the locations in the order \<open>by_area\<close>, that is, the areas one after another
    (labels that are array indices first, in ascending order, then the others in the
    order of their first appearance) and the locations of an area in their order in the
    input. So the Readings with their areas are a rearrangement of the locations with
    theirs, the Readings of each area are in the order of the input, and the whole
    sequence is in the order of the input when the input lists the locations of each
    area together and no area label is an array index.
  The claim as stated fails when the areas are interleaved, as the example after the
  proof shows.
\<close>

theorem one_reading_per_location:
  "(collect_temp env locations [] t = (Inr readings, t') \<longrightarrow>
      map r_location readings = map name locations) \<and>
   (fetches_succeed env \<longrightarrow> (\<exists>rs u. collect_temp env locations [] t = (Inr rs, u))) \<and>
   ((\<exists>l \<in> set locations. area_or_other l \<in> set object_prototype_keys) \<longrightarrow>
      collect_full env ops locations t = (Inl Type_Error, t)) \<and>
   (fetches_succeed env \<and> (\<forall>l \<in> set locations. area_or_other l \<notin> set object_prototype_keys) \<longrightarrow>
      (\<exists>rs u. collect_full env ops locations t = (Inr rs, u))) \<and>
   (collect_full env ops locations t = (Inr readings_full, t'') \<longrightarrow>
      map (\<lambda>r. (r_area r, r_location r)) readings_full =
        map (\<lambda>l. (area_or_other l, name l)) (by_area locations) \<and>
      mset (map (\<lambda>r. (r_area r, r_location r)) readings_full) =
        mset (map (\<lambda>l. (area_or_other l, name l)) locations) \<and>
      length readings_full = length locations \<and>
      (\<forall>a. map r_location (filter (\<lambda>r. r_area r = a) readings_full) =
           map name (filter (\<lambda>l. area_or_other l = a) locations)) \<and>
      (distinct (remdups_adj (map area_or_other locations)) \<and>
       (\<forall>l \<in> set locations. \<not> is_array_index (area_or_other l)) \<longrightarrow>
         map r_location readings_full = map name locations))"
proof (intro conjI impI)
  assume "collect_temp env locations [] t = (Inr readings, t')"
  from collect_temp_names [OF this] show "map r_location readings = map name locations"
    by simp
next
  assume "fetches_succeed env"
  then show "\<exists>rs u. collect_temp env locations [] t = (Inr rs, u)"
    by (rule collect_temp_returns)
next
  assume "\<exists>l \<in> set locations. area_or_other l \<in> set object_prototype_keys"
  then show "collect_full env ops locations t = (Inl Type_Error, t)"
    by (rule collect_full_throws)
next
  assume "fetches_succeed env \<and> (\<forall>l \<in> set locations. area_or_other l \<notin> set object_prototype_keys)"
  then show "\<exists>rs u. collect_full env ops locations t = (Inr rs, u)"
    by (intro collect_full_returns) simp_all
next
  assume run: "collect_full env ops locations t = (Inr readings_full, t'')"
  then obtain obj where obj: "locationsByArea locations = Inr obj"
    and keys: "map (\<lambda>r. (r_area r, r_location r)) readings_full =
         map (\<lambda>l. (area_or_other l, name l)) (concat (map snd (object_entries obj)))"
    by (rule collect_full_keys)
  let ?order = "concat (map snd (object_entries obj))"
  show "map (\<lambda>r. (r_area r, r_location r)) readings_full =
        map (\<lambda>l. (area_or_other l, name l)) (by_area locations)"
    by (simp only: keys fetch_order_is_by_area [OF obj])
  show m: "mset (map (\<lambda>r. (r_area r, r_location r)) readings_full) =
        mset (map (\<lambda>l. (area_or_other l, name l)) locations)"
    by (simp only: keys mset_map fetch_order_mset [OF obj])
  from m have "size (mset (map (\<lambda>r. (r_area r, r_location r)) readings_full)) =
        size (mset (map (\<lambda>l. (area_or_other l, name l)) locations))"
    by (simp only:)
  then show "length readings_full = length locations" by simp
  show "\<forall>a. map r_location (filter (\<lambda>r. r_area r = a) readings_full) =
           map name (filter (\<lambda>l. area_or_other l = a) locations)"
  proof
    fix a
    have "map (\<lambda>r. (r_area r, r_location r)) (filter (\<lambda>r. r_area r = a) readings_full) =
          map (\<lambda>l. (area_or_other l, name l)) (filter (\<lambda>l. area_or_other l = a) ?order)"
      by (simp only: names_of_keys(3,4) keys)
    also have "\<dots> = map (\<lambda>l. (area_or_other l, name l)) (filter (\<lambda>l. area_or_other l = a) locations)"
      by (simp only: fetch_order_by_area [OF obj])
    finally have "map snd (map (\<lambda>r. (r_area r, r_location r)) (filter (\<lambda>r. r_area r = a) readings_full)) =
          map snd (map (\<lambda>l. (area_or_other l, name l)) (filter (\<lambda>l. area_or_other l = a) locations))"
      by (simp only:)
    then show "map r_location (filter (\<lambda>r. r_area r = a) readings_full) =
           map name (filter (\<lambda>l. area_or_other l = a) locations)"
      by (simp only: names_of_keys(1,2) [symmetric])
  qed
next
  assume run: "collect_full env ops locations t = (Inr readings_full, t'')"
    and listed: "distinct (remdups_adj (map area_or_other locations)) \<and>
       (\<forall>l \<in> set locations. \<not> is_array_index (area_or_other l))"
  from run obtain obj where obj: "locationsByArea locations = Inr obj"
    and keys: "map (\<lambda>r. (r_area r, r_location r)) readings_full =
         map (\<lambda>l. (area_or_other l, name l)) (concat (map snd (object_entries obj)))"
    by (rule collect_full_keys)
  from listed have "concat (map snd (object_entries obj)) = locations"
    by (intro fetch_order_listed_by_area [OF obj]) simp_all
  with keys have "map snd (map (\<lambda>r. (r_area r, r_location r)) readings_full) =
      map snd (map (\<lambda>l. (area_or_other l, name l)) locations)"
    by (simp only:)
  then show "map r_location readings_full = map name locations"
    by (simp only: names_of_keys(1,2) [symmetric])
qed

lemma fair_fetch:
  "fetchWeather_full (fair_weather ls) int_ops lat lon t =
     (Inr \<lparr>temperature = Some 5, precipitation = 10, cloudCover = Some 40,
           timestamp = ''2025-12-03T00:00:00Z''\<rparr>,
      t @ [Http_Get Nowcast lat lon (Inr (success eight_hours)),
           Http_Get Locationforecast lat lon (Inr (success [clouds (Some 40)]))])"
  by (simp add: fetchWeather_full_primary_ok [where nowcast = "success eight_hours" and forecast = "success [clouds (Some 40)]" and current = "rain 1" and rest = "tl eight_hours"]
      fair_weather_def world_answers success_def eight_hours_def precipitation_loop_foldl
      next_precipitation_def rain_def dry_def clouds_def int_ops_def or_zero_def)

lemma fair_fetch_temp:
  "fetchWeather_temp (fair_weather ls) lat lon t =
     (Inr \<lparr>temperature_temp = Some 5, timestamp_temp = ''2025-12-03T00:00:00Z''\<rparr>,
      t @ [Http_Get Nowcast lat lon (Inr (success eight_hours))])"
  by (simp add: fetchWeather_temp_def fair_weather_def world_answers Let_def)
    (simp add: success_def eight_hours_def rain_def)

lemma not_array_index: "\<not> is_array_index ''East''" "\<not> is_array_index ''West''"
  by (simp_all add: is_array_index_def is_digit_def)

lemma demo_grouping:
  "locationsByArea [oslo, bergen, drammen] = Inr [(''East'', [oslo, drammen]), (''West'', [bergen])]"
  "locationsByArea [oslo, drammen, bergen] = Inr [(''East'', [oslo, drammen]), (''West'', [bergen])]"
  by (simp_all add: locationsByArea_def group_step_def Let_def area_or_other_def
      object_prototype_keys_def oslo_def bergen_def drammen_def)

lemma demo_entries:
  "object_entries [(''East'', [oslo, drammen]), (''West'', [bergen :: int location])] =
     [(''East'', [oslo, drammen]), (''West'', [bergen])]"
  by (simp add: object_entries_def not_array_index)

lemma demo_collect_full:
  "collect_full (fair_weather ls) int_ops [oslo, bergen, drammen] [] =
     (Inr [\<lparr>r_location = ''Oslo'', r_latitude = 59, r_longitude = 10, r_temperature = Some 5,
            r_area = ''East'', r_precipitation = 10, r_cloudCover = Some 40\<rparr>,
           \<lparr>r_location = ''Drammen'', r_latitude = 59, r_longitude = 10, r_temperature = Some 5,
            r_area = ''East'', r_precipitation = 10, r_cloudCover = Some 40\<rparr>,
           \<lparr>r_location = ''Bergen'', r_latitude = 60, r_longitude = 5, r_temperature = Some 5,
            r_area = ''West'', r_precipitation = 10, r_cloudCover = Some 40\<rparr>],
      [Http_Get Nowcast 59 10 (Inr (success eight_hours)),
       Http_Get Locationforecast 59 10 (Inr (success [clouds (Some 40)])),
       Http_Get Nowcast 59 10 (Inr (success eight_hours)),
       Http_Get Locationforecast 59 10 (Inr (success [clouds (Some 40)])),
       Http_Get Nowcast 60 5 (Inr (success eight_hours)),
       Http_Get Locationforecast 60 5 (Inr (success [clouds (Some 40)]))])"
  by (simp add: collect_full_def demo_grouping demo_entries fair_fetch)
    (simp add: oslo_def bergen_def drammen_def area_or_other_def)

text \<open>
  The claim C1 as stated is false for the second revision: with the locations Oslo (area
  East), Bergen (West) and Drammen (East), in this order, and every fetch successful, the
  Readings are those of Oslo, Drammen and Bergen.
\<close>

theorem interleaved_areas_counterexample:
  "map_sum id (map r_location)
     (fst (collect_full (fair_weather [oslo, bergen, drammen]) int_ops [oslo, bergen, drammen] [])) =
     Inr [''Oslo'', ''Drammen'', ''Bergen''] \<and>
   map name [oslo, bergen, drammen] = [''Oslo'', ''Bergen'', ''Drammen'']"
  by (simp add: demo_collect_full) (simp add: oslo_def bergen_def drammen_def)

lemma demo_collect_listed:
  "collect_full (fair_weather ls) int_ops [oslo, drammen, bergen] [] =
     (Inr [\<lparr>r_location = ''Oslo'', r_latitude = 59, r_longitude = 10, r_temperature = Some 5,
            r_area = ''East'', r_precipitation = 10, r_cloudCover = Some 40\<rparr>,
           \<lparr>r_location = ''Drammen'', r_latitude = 59, r_longitude = 10, r_temperature = Some 5,
            r_area = ''East'', r_precipitation = 10, r_cloudCover = Some 40\<rparr>,
           \<lparr>r_location = ''Bergen'', r_latitude = 60, r_longitude = 5, r_temperature = Some 5,
            r_area = ''West'', r_precipitation = 10, r_cloudCover = Some 40\<rparr>],
      [Http_Get Nowcast 59 10 (Inr (success eight_hours)),
       Http_Get Locationforecast 59 10 (Inr (success [clouds (Some 40)])),
       Http_Get Nowcast 59 10 (Inr (success eight_hours)),
       Http_Get Locationforecast 59 10 (Inr (success [clouds (Some 40)])),
       Http_Get Nowcast 60 5 (Inr (success eight_hours)),
       Http_Get Locationforecast 60 5 (Inr (success [clouds (Some 40)]))])"
  by (simp add: collect_full_def demo_grouping demo_entries fair_fetch)
    (simp add: oslo_def bergen_def drammen_def area_or_other_def)

lemma demo_collect_temp:
  "collect_temp (fair_weather ls) [oslo, drammen, bergen] [] [] =
     (Inr [\<lparr>r_location = ''Oslo'', r_latitude = 59, r_longitude = 10, r_temperature = Some 5\<rparr>,
           \<lparr>r_location = ''Drammen'', r_latitude = 59, r_longitude = 10, r_temperature = Some 5\<rparr>,
           \<lparr>r_location = ''Bergen'', r_latitude = 60, r_longitude = 5, r_temperature = Some 5\<rparr>],
      [Http_Get Nowcast 59 10 (Inr (success eight_hours)),
       Http_Get Nowcast 59 10 (Inr (success eight_hours)),
       Http_Get Nowcast 60 5 (Inr (success eight_hours))])"
  by (simp add: fair_fetch_temp) (simp add: oslo_def bergen_def drammen_def)

lemma fair_weather_succeeds: "fetches_succeed (fair_weather ls)"
  by (simp add: fetches_succeed_def fair_weather_def world_answers success_def eight_hours_def)

lemma demo_by_area:
  "map (\<lambda>l. (area_or_other l, name l)) (by_area [oslo, bergen, drammen]) =
     [(''East'', ''Oslo''), (''East'', ''Drammen''), (''West'', ''Bergen'')]"
proof -
  have a: "area_or_other oslo = ''East''" "area_or_other bergen = ''West''"
    "area_or_other drammen = ''East''"
    by (simp_all add: area_or_other_def oslo_def bergen_def drammen_def)
  have "area_order [oslo, bergen, drammen] = [''East'', ''West'']"
    by (simp add: area_order_def first_seen_def a not_array_index)
  then show ?thesis
    by (simp add: by_area_def a) (simp add: oslo_def bergen_def drammen_def)
qed

lemma demo_areas:
  "area_or_other oslo = ''East''" "area_or_other bergen = ''West''"
  "area_or_other drammen = ''East''" "area_or_other nowhere = ''valueOf''"
  by (simp_all add: area_or_other_def oslo_def bergen_def drammen_def nowhere_def)

text \<open>
  Three locations listed area by area: both revisions give the Readings in the order of
  the input. The same locations with the areas interleaved: the collector returns and
  the Readings are in the order \<open>by_area\<close>. A location in the area \<^verbatim>\<open>valueOf\<close>: grouping
  throws and nothing is fetched.
\<close>

theorem one_reading_per_location_witness:
  "map_sum id (map r_location)
     (fst (collect_temp (fair_weather []) [oslo, drammen, bergen] [] [])) =
     Inr (map name [oslo, drammen, bergen]) \<and>
   map_sum id (map r_location)
     (fst (collect_full (fair_weather []) int_ops [oslo, drammen, bergen] [])) =
     Inr (map name [oslo, drammen, bergen]) \<and>
   map_sum id length
     (fst (collect_full (fair_weather []) int_ops [oslo, drammen, bergen] [])) = Inr 3 \<and>
   distinct (remdups_adj (map area_or_other [oslo, drammen, bergen])) \<and>
   \<not> is_array_index (area_or_other oslo) \<and> \<not> is_array_index (area_or_other bergen) \<and>
   fetches_succeed (fair_weather []) \<and>
   (\<exists>rs u. collect_temp (fair_weather []) [oslo, bergen, drammen] [] [] = (Inr rs, u)) \<and>
   (\<exists>rs u. collect_full (fair_weather []) int_ops [oslo, bergen, drammen] [] = (Inr rs, u)) \<and>
   map_sum id (map (\<lambda>r. (r_area r, r_location r)))
     (fst (collect_full (fair_weather []) int_ops [oslo, bergen, drammen] [])) =
     Inr (map (\<lambda>l. (area_or_other l, name l)) (by_area [oslo, bergen, drammen])) \<and>
   map (\<lambda>l. (area_or_other l, name l)) (by_area [oslo, bergen, drammen]) =
     [(''East'', ''Oslo''), (''East'', ''Drammen''), (''West'', ''Bergen'')] \<and>
   area_or_other nowhere \<in> set object_prototype_keys \<and>
   collect_full (fair_weather []) int_ops [oslo, nowhere, bergen] [] = (Inl Type_Error, [])"
proof -
  note temp = demo_collect_temp [of "[]"] and full = demo_collect_listed [of "[]"]
    and mixed = demo_collect_full [of "[]"]
  have areas: "map area_or_other [oslo, drammen, bergen] = [''East'', ''East'', ''West'']"
    by (simp add: demo_areas)
  have listed: "distinct (remdups_adj (map area_or_other [oslo, drammen, bergen])) \<and>
      (\<forall>l \<in> set [oslo, drammen, bergen]. \<not> is_array_index (area_or_other l))"
    using areas by (simp add: not_array_index)
  have good: "fetches_succeed (fair_weather [])" by (rule fair_weather_succeeds)
  have plain: "fetches_succeed (fair_weather []) \<and>
      (\<forall>l \<in> set [oslo, bergen, drammen]. area_or_other l \<notin> set object_prototype_keys)"
    using good by (simp add: demo_areas object_prototype_keys_def)
  have proto: "area_or_other nowhere \<in> set object_prototype_keys"
    by (simp add: demo_areas object_prototype_keys_def)
  then have bad: "\<exists>l \<in> set [oslo, nowhere, bergen]. area_or_other l \<in> set object_prototype_keys"
    by simp
  note inst = one_reading_per_location [where env = "fair_weather []" and ops = int_ops and
      locations = "[oslo, drammen, bergen]" and t = "[]"]
  note inst2 = one_reading_per_location [where env = "fair_weather []" and ops = int_ops and
      locations = "[oslo, bergen, drammen]" and t = "[]"]
  note inst3 = one_reading_per_location [where env = "fair_weather []" and ops = int_ops and
      locations = "[oslo, nowhere, bergen]" and t = "[]"]
  from inst [THEN conjunct1, rule_format, OF temp]
  have 1: "map_sum id (map r_location)
     (fst (collect_temp (fair_weather []) [oslo, drammen, bergen] [] [])) =
     Inr (map name [oslo, drammen, bergen])"
    by (simp only: temp) simp
  note c5 = inst [THEN conjunct2, THEN conjunct2, THEN conjunct2, THEN conjunct2, rule_format, OF full]
  from c5 [THEN conjunct2, THEN conjunct2, THEN conjunct1]
       c5 [THEN conjunct2, THEN conjunct2, THEN conjunct2, THEN conjunct2, rule_format, OF listed]
  have 2: "map_sum id (map r_location)
     (fst (collect_full (fair_weather []) int_ops [oslo, drammen, bergen] [])) =
     Inr (map name [oslo, drammen, bergen])"
    and 3: "map_sum id length
     (fst (collect_full (fair_weather []) int_ops [oslo, drammen, bergen] [])) = Inr 3"
    by (simp_all only: full) simp_all
  from inst2 [THEN conjunct2, THEN conjunct1, rule_format, OF good]
  have 4: "\<exists>rs u. collect_temp (fair_weather []) [oslo, bergen, drammen] [] [] = (Inr rs, u)" .
  from inst2 [THEN conjunct2, THEN conjunct2, THEN conjunct2, THEN conjunct1, rule_format, OF plain]
  have 5: "\<exists>rs u. collect_full (fair_weather []) int_ops [oslo, bergen, drammen] [] = (Inr rs, u)" .
  from inst2 [THEN conjunct2, THEN conjunct2, THEN conjunct2, THEN conjunct2, rule_format, OF mixed,
      THEN conjunct1]
  have 6: "map_sum id (map (\<lambda>r. (r_area r, r_location r)))
     (fst (collect_full (fair_weather []) int_ops [oslo, bergen, drammen] [])) =
     Inr (map (\<lambda>l. (area_or_other l, name l)) (by_area [oslo, bergen, drammen]))"
    by (simp only: mixed) simp
  from inst3 [THEN conjunct2, THEN conjunct2, THEN conjunct1, rule_format, OF bad]
  have 7: "collect_full (fair_weather []) int_ops [oslo, nowhere, bergen] [] = (Inl Type_Error, [])" .
  from 1 2 3 listed good 4 5 6 demo_by_area proto 7 show ?thesis
    by (simp only: simp_thms) simp
qed


section \<open>Properties of the Orchestrator\<close>

subsection \<open>The events of the fetch phase\<close>

lemma fetchWeather_full_events:
  assumes "fetchWeather_full env ops lat lon t = (res, t')"
  shows "\<exists>new. t' = t @ new \<and> stops_at_failure res new \<and>
           ((\<exists>w. res = Inr w) \<longrightarrow> length (filter primary_fetch new) = 1)"
proof (cases "http_get env t Nowcast lat lon")
  case (Inl e)
  with assms have "t' = t @ [Http_Get Nowcast lat lon (Inl e)]" "res = Inl e"
    by (simp_all add: fetchWeather_full_def)
  then show ?thesis by (simp add: stops_at_failure_def)
next
  case (Inr r)
  show ?thesis
  proof (cases "ok r")
    case False
    with Inr assms have "t' = t @ [Http_Get Nowcast lat lon (Inr r)]"
      "res = Inl (Api_Error ''Nowcast API error: '' (status r))"
      by (simp_all add: fetchWeather_full_primary_failed)
    with False show ?thesis
      by (simp add: stops_at_failure_def exI [of _ "[]"])
  next
    case True
    let ?t1 = "t @ [Http_Get Nowcast lat lon (Inr r)]"
    show ?thesis
    proof (cases "json r")
      case None
      with Inr True assms have "t' = ?t1" "res = Inl Body_Error"
        by (simp_all add: fetchWeather_full_def)
      with True show ?thesis by (simp add: stops_at_failure_def)
    next
      case (Some ts)
      show ?thesis
      proof (cases ts)
        case Nil
        with Some Inr True assms have "t' = ?t1" "res = Inl Type_Error"
          by (simp_all add: fetchWeather_full_def)
        with True show ?thesis by (simp add: stops_at_failure_def)
      next
        case (Cons current rest)
        let ?a = "http_get env ?t1 Locationforecast lat lon"
        have "t' = t @ [Http_Get Nowcast lat lon (Inr r), Http_Get Locationforecast lat lon ?a]"
          using Cons Some Inr True assms
          by (cases ?a) (auto simp: fetchWeather_full_def Let_def split: option.splits list.splits if_splits)
        with True show ?thesis by (simp add: stops_at_failure_def)
      qed
    qed
  qed
qed

lemma stops_at_failure_Nil: "stops_at_failure res []"
  by (simp add: stops_at_failure_def)

lemma stops_at_failure_append:
  assumes "stops_at_failure (Inr x) new1" and "stops_at_failure res new2"
  shows "stops_at_failure res (new1 @ new2)"
proof -
  from assms(1) have c1: "\<forall>e \<in> set new1. \<not> sheets_call e \<and> \<not> failed_primary e"
    by (auto simp: stops_at_failure_def)
  from assms(2) have s2: "\<forall>e \<in> set new2. \<not> sheets_call e"
    by (simp add: stops_at_failure_def)
  from assms(2) consider "\<forall>e \<in> set new2. \<not> failed_primary e"
    | pre lat lon r where "new2 = pre @ [Http_Get Nowcast lat lon (Inr r)]"
        "\<forall>e \<in> set pre. \<not> failed_primary e" "\<not> ok r"
        "res = Inl (Api_Error ''Nowcast API error: '' (status r))"
    unfolding stops_at_failure_def by blast
  then show ?thesis
  proof cases
    case 1
    with c1 s2 show ?thesis by (auto simp: stops_at_failure_def)
  next
    case 2
    from 2(1) have "new1 @ new2 = (new1 @ pre) @ [Http_Get Nowcast lat lon (Inr r)]" by simp
    moreover from c1 2(2) have "\<forall>e \<in> set (new1 @ pre). \<not> failed_primary e" by auto
    moreover from c1 s2 have "\<forall>e \<in> set (new1 @ new2). \<not> sheets_call e" by auto
    ultimately show ?thesis
      unfolding stops_at_failure_def using 2(3,4) by blast
  qed
qed

lemma stops_at_failure_Inl:
  "stops_at_failure (Inl e :: error + 'a) new \<Longrightarrow> stops_at_failure (Inl e :: error + 'b) new"
  by (simp add: stops_at_failure_def)

lemma fetch_area_full_events:
  "fetch_area_full env ops ls wd t = (res, t') \<Longrightarrow>
   \<exists>new. t' = t @ new \<and> stops_at_failure res new \<and>
         ((\<exists>rs. res = Inr rs) \<longrightarrow> length (filter primary_fetch new) = length ls)"
proof (induction ls arbitrary: wd t)
  case Nil
  then show ?case by (simp add: stops_at_failure_Nil)
next
  case (Cons l ls)
  obtain r1 t1 where f: "fetchWeather_full env ops (latitude l) (longitude l) t = (r1, t1)"
    by (cases "fetchWeather_full env ops (latitude l) (longitude l) t")
  from fetchWeather_full_events [OF f] obtain new1 where n1: "t1 = t @ new1"
    "stops_at_failure r1 new1" "(\<exists>w. r1 = Inr w) \<longrightarrow> length (filter primary_fetch new1) = 1"
    by blast
  show ?case
  proof (cases r1)
    case (Inl e)
    with Cons.prems f have "res = Inl e" "t' = t1" by simp_all
    with n1 Inl show ?thesis by (auto dest: stops_at_failure_Inl)
  next
    case (Inr w)
    with Cons.prems f obtain wd' where "fetch_area_full env ops ls wd' t1 = (res, t')" by simp
    from Cons.IH [OF this] obtain new2 where n2: "t' = t1 @ new2" "stops_at_failure res new2"
      "(\<exists>rs. res = Inr rs) \<longrightarrow> length (filter primary_fetch new2) = length ls"
      by blast
    from n1(2) Inr n2(2) have "stops_at_failure res (new1 @ new2)"
      by (simp add: stops_at_failure_append)
    moreover from n1(1) n2(1) have "t' = t @ (new1 @ new2)" by simp
    moreover from n1(3) Inr n2(3)
    have "(\<exists>rs. res = Inr rs) \<longrightarrow> length (filter primary_fetch (new1 @ new2)) = length (l # ls)"
      by simp
    ultimately show ?thesis by blast
  qed
qed

lemma fetch_areas_full_events:
  "fetch_areas_full env ops E wd t = (res, t') \<Longrightarrow>
   \<exists>new. t' = t @ new \<and> stops_at_failure res new \<and>
         ((\<exists>rs. res = Inr rs) \<longrightarrow>
            length (filter primary_fetch new) = length (concat (map snd E)))"
proof (induction E arbitrary: wd t)
  case Nil
  then show ?case by (simp add: stops_at_failure_Nil)
next
  case (Cons kv E)
  obtain k ls where kv: "kv = (k, ls)" by (cases kv)
  obtain r1 t1 where f: "fetch_area_full env ops ls wd t = (r1, t1)"
    by (cases "fetch_area_full env ops ls wd t")
  from fetch_area_full_events [OF f] obtain new1 where n1: "t1 = t @ new1"
    "stops_at_failure r1 new1" "(\<exists>rs. r1 = Inr rs) \<longrightarrow> length (filter primary_fetch new1) = length ls"
    by blast
  show ?case
  proof (cases r1)
    case (Inl e)
    with Cons.prems f kv have "res = Inl e" "t' = t1" by simp_all
    with n1 Inl show ?thesis by auto
  next
    case (Inr wd')
    with Cons.prems f kv have "fetch_areas_full env ops E wd' t1 = (res, t')" by simp
    from Cons.IH [OF this] obtain new2 where n2: "t' = t1 @ new2" "stops_at_failure res new2"
      "(\<exists>rs. res = Inr rs) \<longrightarrow> length (filter primary_fetch new2) = length (concat (map snd E))"
      by blast
    from n1(2) Inr n2(2) have "stops_at_failure res (new1 @ new2)"
      by (simp add: stops_at_failure_append)
    moreover from n1(1) n2(1) have "t' = t @ (new1 @ new2)" by simp
    moreover from n1(3) Inr n2(3) kv
    have "(\<exists>rs. res = Inr rs) \<longrightarrow>
            length (filter primary_fetch (new1 @ new2)) = length (concat (map snd (kv # E)))"
      by simp
    ultimately show ?thesis by blast
  qed
qed

lemma collect_full_events:
  assumes "collect_full env ops locations t = (res, t')"
  shows "\<exists>new. t' = t @ new \<and> stops_at_failure res new \<and>
           ((\<exists>rs. res = Inr rs) \<longrightarrow> length (filter primary_fetch new) = length locations)"
proof (cases "locationsByArea locations")
  case (Inl e)
  with assms have "res = Inl e" "t' = t" by (simp_all add: collect_full_def)
  then show ?thesis by (simp add: stops_at_failure_Nil)
next
  case (Inr obj)
  with assms have "fetch_areas_full env ops (object_entries obj) [] t = (res, t')"
    by (simp add: collect_full_def)
  from fetch_areas_full_events [OF this] obtain new where n: "t' = t @ new"
    "stops_at_failure res new"
    "(\<exists>rs. res = Inr rs) \<longrightarrow>
       length (filter primary_fetch new) = length (concat (map snd (object_entries obj)))"
    by blast
  have "size (mset (concat (map snd (object_entries obj)))) = size (mset locations)"
    by (simp only: fetch_order_mset [OF Inr])
  then have "length (concat (map snd (object_entries obj))) = length locations"
    by (simp only: size_mset)
  with n show ?thesis by auto
qed

lemma fetchWeather_temp_events:
  assumes "fetchWeather_temp env lat lon t = (res, t')"
  shows "\<exists>a. t' = t @ [Http_Get Nowcast lat lon a]"
  using assms
  by (cases "http_get env t Nowcast lat lon")
    (auto simp: fetchWeather_temp_def Let_def split: if_splits option.splits list.splits)

lemma collect_temp_events:
  "collect_temp env ls wd t = (res, t') \<Longrightarrow>
   \<exists>new. t' = t @ new \<and> (\<forall>e \<in> set new. \<not> sheets_call e) \<and>
         ((\<exists>rs. res = Inr rs) \<longrightarrow> length (filter primary_fetch new) = length ls)"
proof (induction ls arbitrary: wd t)
  case Nil
  then show ?case by simp
next
  case (Cons l ls)
  obtain r1 t1 where f: "fetchWeather_temp env (latitude l) (longitude l) t = (r1, t1)"
    by (cases "fetchWeather_temp env (latitude l) (longitude l) t")
  from fetchWeather_temp_events [OF f] obtain a
    where n1: "t1 = t @ [Http_Get Nowcast (latitude l) (longitude l) a]"
    by blast
  show ?case
  proof (cases r1)
    case (Inl e)
    with Cons.prems f have "res = Inl e" "t' = t1" by simp_all
    with n1 show ?thesis by simp
  next
    case (Inr w)
    with Cons.prems f obtain wd' where "collect_temp env ls wd' t1 = (res, t')" by simp
    from Cons.IH [OF this] obtain new2 where n2: "t' = t1 @ new2"
      "\<forall>e \<in> set new2. \<not> sheets_call e"
      "(\<exists>rs. res = Inr rs) \<longrightarrow> length (filter primary_fetch new2) = length ls"
      by blast
    let ?new = "Http_Get Nowcast (latitude l) (longitude l) a # new2"
    from n1 n2(1) have "t' = t @ ?new" by simp
    moreover from n2(2) have "\<forall>e \<in> set ?new. \<not> sheets_call e" by simp
    moreover from n2(3)
    have "(\<exists>rs. res = Inr rs) \<longrightarrow> length (filter primary_fetch ?new) = length (l # ls)"
      by simp
    ultimately show ?thesis by blast
  qed
qed

lemma appendToSheet_full_events:
  "\<exists>new. snd (appendToSheet_full env locations weatherData t) = t @ new \<and>
         (\<forall>e \<in> set new. sheets_call e)"
proof -
  let ?get = "sheets_get env t ''Sheet1!A1:G1''"
  show ?thesis
  proof (cases ?get)
    case (Inl e)
    then show ?thesis by (simp add: appendToSheet_full_def)
  next
    case (Inr vals)
    show ?thesis
    proof (cases "first_row vals = []")
      case True
      with Inr show ?thesis
        by (cases "sheets_update env (t @ [Sheets_Get ''Sheet1!A1:G1'' (Inr vals)]) ''Sheet1!A1'' [header_full]")
          (simp_all add: appendToSheet_full_def values_update_def values_append_def Let_def)
    next
      case False
      with Inr show ?thesis
        by (simp add: appendToSheet_full_def values_update_def values_append_def Let_def)
    qed
  qed
qed


subsection \<open>The paths through main\<close>

lemma appendToSheet_temp_events:
  "\<exists>new. snd (appendToSheet_temp env locations weatherData t) = t @ new \<and>
         (\<forall>e \<in> set new. sheets_call e)"
proof -
  let ?get = "sheets_get env t ''Sheet1!A1:D1''"
  show ?thesis
  proof (cases ?get)
    case (Inl e)
    then show ?thesis by (simp add: appendToSheet_temp_def)
  next
    case (Inr vals)
    show ?thesis
    proof (cases "first_row vals = []")
      case True
      with Inr show ?thesis
        by (cases "sheets_update env (t @ [Sheets_Get ''Sheet1!A1:D1'' (Inr vals)]) ''Sheet1!A1'' [header_temp]")
          (simp_all add: appendToSheet_temp_def values_update_def values_append_def Let_def)
    next
      case False
      with Inr show ?thesis
        by (simp add: appendToSheet_temp_def values_update_def values_append_def Let_def)
    qed
  qed
qed

lemma main_full_cases:
  obtains (config) e where "config env = Inl e" "main_full env ops argv = (Failure e, [])"
  | (fetch) locations e tr where "config env = Inr locations"
      "collect_full env ops locations [] = (Inl e, tr)" "main_full env ops argv = (Failure e, tr)"
  | (dry) locations rs tr where "config env = Inr locations"
      "collect_full env ops locations [] = (Inr rs, tr)" "''--dry-run'' \<in> set argv"
      "main_full env ops argv = (Success, tr)"
  | (credentials) locations rs tr e where "config env = Inr locations"
      "collect_full env ops locations [] = (Inr rs, tr)" "''--dry-run'' \<notin> set argv"
      "google_credentials env = Some e" "main_full env ops argv = (Failure e, tr)"
  | (sheet) locations rs tr where "config env = Inr locations"
      "collect_full env ops locations [] = (Inr rs, tr)" "''--dry-run'' \<notin> set argv"
      "google_credentials env = None"
      "snd (main_full env ops argv) = snd (appendToSheet_full env locations rs tr)"
proof (cases "config env")
  case (Inl e)
  then show ?thesis by (intro config [of e]) (simp_all add: main_full_def)
next
  case (Inr locations)
  obtain res tr where c: "collect_full env ops locations [] = (res, tr)"
    by (cases "collect_full env ops locations []")
  show ?thesis
  proof (cases res)
    case (Inl e)
    with Inr c show ?thesis by (intro fetch [of locations e tr]) (simp_all add: main_full_def)
  next
    case rs: (Inr rs)
    show ?thesis
    proof (cases "''--dry-run'' \<in> set argv")
      case True
      with Inr c rs show ?thesis by (intro dry [of locations rs tr]) (simp_all add: main_full_def)
    next
      case False
      show ?thesis
      proof (cases "google_credentials env")
        case (Some e)
        with Inr c rs False show ?thesis
          by (intro credentials [of locations rs tr e]) (simp_all add: main_full_def)
      next
        case None
        with Inr c rs False show ?thesis
          by (intro sheet [of locations rs tr])
            (simp_all add: main_full_def split: prod.splits option.splits)
      qed
    qed
  qed
qed

lemma main_temp_cases:
  obtains (config) e where "config env = Inl e" "main_temp env argv = (Failure e, [])"
  | (fetch) locations e tr where "config env = Inr locations"
      "collect_temp env locations [] [] = (Inl e, tr)" "main_temp env argv = (Failure e, tr)"
  | (dry) locations rs tr where "config env = Inr locations"
      "collect_temp env locations [] [] = (Inr rs, tr)" "''--dry-run'' \<in> set argv"
      "main_temp env argv = (Success, tr)"
  | (credentials) locations rs tr e where "config env = Inr locations"
      "collect_temp env locations [] [] = (Inr rs, tr)" "''--dry-run'' \<notin> set argv"
      "google_credentials env = Some e" "main_temp env argv = (Failure e, tr)"
  | (sheet) locations rs tr where "config env = Inr locations"
      "collect_temp env locations [] [] = (Inr rs, tr)" "''--dry-run'' \<notin> set argv"
      "google_credentials env = None"
      "snd (main_temp env argv) = snd (appendToSheet_temp env locations rs tr)"
proof (cases "config env")
  case (Inl e)
  then show ?thesis by (intro config [of e]) (simp_all add: main_temp_def)
next
  case (Inr locations)
  obtain res tr where c: "collect_temp env locations [] [] = (res, tr)"
    by (cases "collect_temp env locations [] []")
  show ?thesis
  proof (cases res)
    case (Inl e)
    with Inr c show ?thesis by (intro fetch [of locations e tr]) (simp_all add: main_temp_def)
  next
    case rs: (Inr rs)
    show ?thesis
    proof (cases "''--dry-run'' \<in> set argv")
      case True
      with Inr c rs show ?thesis by (intro dry [of locations rs tr]) (simp_all add: main_temp_def)
    next
      case False
      show ?thesis
      proof (cases "google_credentials env")
        case (Some e)
        with Inr c rs False show ?thesis
          by (intro credentials [of locations rs tr e]) (simp_all add: main_temp_def)
      next
        case None
        with Inr c rs False show ?thesis
          by (intro sheet [of locations rs tr])
            (simp_all add: main_temp_def split: prod.splits option.splits)
      qed
    qed
  qed
qed


subsection \<open>The locations fetched\<close>

lemma primary_coords_append:
  "primary_coords (xs @ ys) = primary_coords xs @ primary_coords ys"
  by (induction xs rule: primary_coords.induct) simp_all

lemma fetchWeather_full_coords:
  assumes "fetchWeather_full env ops lat lon t = (res, t')"
  shows "primary_coords t' = primary_coords t @ [(lat, lon)]"
proof (cases "http_get env t Nowcast lat lon")
  case (Inl e)
  with assms have "t' = t @ [Http_Get Nowcast lat lon (Inl e)]"
    by (simp add: fetchWeather_full_def)
  then show ?thesis by (simp add: primary_coords_append)
next
  case (Inr r)
  show ?thesis
  proof (cases "ok r")
    case False
    with Inr assms have "t' = t @ [Http_Get Nowcast lat lon (Inr r)]"
      by (simp add: fetchWeather_full_primary_failed)
    then show ?thesis by (simp add: primary_coords_append)
  next
    case True
    let ?t1 = "t @ [Http_Get Nowcast lat lon (Inr r)]"
    show ?thesis
    proof (cases "json r")
      case None
      with Inr True assms have "t' = ?t1" by (simp add: fetchWeather_full_def)
      then show ?thesis by (simp add: primary_coords_append)
    next
      case (Some ts)
      show ?thesis
      proof (cases ts)
        case Nil
        with Some Inr True assms have "t' = ?t1" by (simp add: fetchWeather_full_def)
        then show ?thesis by (simp add: primary_coords_append)
      next
        case (Cons current rest)
        let ?a = "http_get env ?t1 Locationforecast lat lon"
        have "t' = t @ [Http_Get Nowcast lat lon (Inr r), Http_Get Locationforecast lat lon ?a]"
          using Cons Some Inr True assms
          by (cases ?a) (auto simp: fetchWeather_full_def Let_def split: option.splits list.splits if_splits)
        then show ?thesis by (simp add: primary_coords_append)
      qed
    qed
  qed
qed

lemma fetch_area_full_coords:
  "fetch_area_full env ops ls wd t = (res, t') \<Longrightarrow>
   \<exists>k \<le> length ls.
     primary_coords t' = primary_coords t @ map (\<lambda>l. (latitude l, longitude l)) (take k ls) \<and>
     ((\<exists>rs. res = Inr rs) \<longrightarrow> k = length ls)"
proof (induction ls arbitrary: wd t)
  case Nil
  then show ?case by simp
next
  case (Cons l ls)
  obtain r1 t1 where f: "fetchWeather_full env ops (latitude l) (longitude l) t = (r1, t1)"
    by (cases "fetchWeather_full env ops (latitude l) (longitude l) t")
  note c1 = fetchWeather_full_coords [OF f]
  show ?case
  proof (cases r1)
    case (Inl e)
    with Cons.prems f have "res = Inl e" "t' = t1" by simp_all
    with c1 show ?thesis by (intro exI [of _ 1]) simp
  next
    case (Inr w)
    with Cons.prems f obtain wd' where "fetch_area_full env ops ls wd' t1 = (res, t')" by simp
    from Cons.IH [OF this] obtain k where k: "k \<le> length ls"
      "primary_coords t' = primary_coords t1 @ map (\<lambda>l. (latitude l, longitude l)) (take k ls)"
      "(\<exists>rs. res = Inr rs) \<longrightarrow> k = length ls"
      by blast
    with c1 show ?thesis by (intro exI [of _ "Suc k"]) simp
  qed
qed

lemma fetch_areas_full_coords:
  "fetch_areas_full env ops E wd t = (res, t') \<Longrightarrow>
   \<exists>k \<le> length (concat (map snd E)).
     primary_coords t' =
       primary_coords t @ map (\<lambda>l. (latitude l, longitude l)) (take k (concat (map snd E)))"
proof (induction E arbitrary: wd t)
  case Nil
  then show ?case by simp
next
  case (Cons kv E)
  obtain a ls where kv: "kv = (a, ls)" by (cases kv)
  obtain r1 t1 where f: "fetch_area_full env ops ls wd t = (r1, t1)"
    by (cases "fetch_area_full env ops ls wd t")
  from fetch_area_full_coords [OF f] obtain k1 where k1: "k1 \<le> length ls"
    "primary_coords t1 = primary_coords t @ map (\<lambda>l. (latitude l, longitude l)) (take k1 ls)"
    "(\<exists>rs. r1 = Inr rs) \<longrightarrow> k1 = length ls"
    by blast
  show ?case
  proof (cases r1)
    case (Inl e)
    with Cons.prems f kv have "t' = t1" by simp
    with k1 kv show ?thesis by (intro exI [of _ k1]) simp
  next
    case (Inr wd')
    with Cons.prems f kv have "fetch_areas_full env ops E wd' t1 = (res, t')" by simp
    from Cons.IH [OF this] obtain k2 where k2: "k2 \<le> length (concat (map snd E))"
      "primary_coords t' =
         primary_coords t1 @ map (\<lambda>l. (latitude l, longitude l)) (take k2 (concat (map snd E)))"
      by blast
    from k1(3) Inr have "k1 = length ls" by simp
    with k1(2) k2 kv show ?thesis by (intro exI [of _ "length ls + k2"]) simp
  qed
qed

lemma length_by_area:
  assumes "locationsByArea locations = Inr obj"
  shows "length (by_area locations) = length locations"
proof -
  have "size (mset (concat (map snd (object_entries obj)))) = size (mset locations)"
    by (simp only: fetch_order_mset [OF assms])
  then show ?thesis
    by (simp only: size_mset fetch_order_is_by_area [OF assms])
qed

lemma collect_full_coords:
  assumes "collect_full env ops locations t = (res, t')"
  shows "\<exists>k \<le> length locations.
     primary_coords t' =
       primary_coords t @ map (\<lambda>l. (latitude l, longitude l)) (take k (by_area locations))"
proof (cases "locationsByArea locations")
  case (Inl e)
  with assms have "t' = t" by (simp add: collect_full_def)
  then show ?thesis by (intro exI [of _ 0]) simp
next
  case (Inr obj)
  with assms have "fetch_areas_full env ops (object_entries obj) [] t = (res, t')"
    by (simp add: collect_full_def)
  from fetch_areas_full_coords [OF this]
  show ?thesis
    by (simp only: fetch_order_is_by_area [OF Inr] length_by_area [OF Inr])
qed


subsection \<open>Failure of a fetch, and dry runs\<close>

lemma failed_primary_not_sheets: "failed_primary e \<Longrightarrow> \<not> sheets_call e"
  by (cases e) simp_all

lemma failure_is_last:
  assumes s: "stops_at_failure res new" and i: "i < length new"
    and e: "new ! i = Http_Get Nowcast lat lon (Inr r)" and r: "\<not> ok r"
  shows "Suc i = length new \<and> res = Inl (Api_Error ''Nowcast API error: '' (status r))"
proof -
  from e r have f: "failed_primary (new ! i)" by simp
  with i have "\<not> (\<forall>e \<in> set new. \<not> failed_primary e)"
    using nth_mem by blast
  with s obtain pre lat' lon' r' where new: "new = pre @ [Http_Get Nowcast lat' lon' (Inr r')]"
    and pre: "\<forall>e \<in> set pre. \<not> failed_primary e"
    and res: "res = Inl (Api_Error ''Nowcast API error: '' (status r'))"
    unfolding stops_at_failure_def by blast
  have "\<not> i < length pre"
  proof
    assume "i < length pre"
    with new f have "failed_primary (pre ! i)" by (simp add: nth_append)
    with pre \<open>i < length pre\<close> show False using nth_mem by blast
  qed
  with i new have "i = length pre" by simp
  with new e have "r' = r" by simp
  with res new \<open>i = length pre\<close> show ?thesis by simp
qed

lemma clean_after_success:
  assumes "stops_at_failure (Inr x) new"
  shows "\<forall>e \<in> set new. \<not> failed_primary e"
  using assms by (auto simp: stops_at_failure_def)

lemma failed_fetch_in_fetch_phase:
  assumes run: "main_full env ops argv = (out, tr)" and i: "i < length tr"
    and e: "tr ! i = Http_Get Nowcast lat lon (Inr r)" and r: "\<not> ok r"
  shows "\<exists>locations err. config env = Inr locations \<and>
           collect_full env ops locations [] = (Inl err, tr) \<and> out = Failure err"
proof -
  from e r have f: "failed_primary (tr ! i)" by simp
  with i have ex: "\<exists>e \<in> set tr. failed_primary e" using nth_mem by blast
  show ?thesis
  proof (cases rule: main_full_cases [of env ops argv])
    case (config err)
    with run i show ?thesis by simp
  next
    case (fetch locations err tr0)
    with run show ?thesis by simp
  next
    case (dry locations rs tr0)
    with run have eq: "tr = tr0" by simp
    from collect_full_events [OF dry(2)] have "stops_at_failure (Inr rs) tr0" by auto
    from clean_after_success [OF this] ex eq show ?thesis by blast
  next
    case (credentials locations rs tr0 err)
    with run have eq: "tr = tr0" by simp
    from collect_full_events [OF credentials(2)] have "stops_at_failure (Inr rs) tr0" by auto
    from clean_after_success [OF this] ex eq show ?thesis by blast
  next
    case (sheet locations rs tr0)
    from collect_full_events [OF sheet(2)] have "stops_at_failure (Inr rs) tr0" by auto
    from clean_after_success [OF this] have c: "\<forall>e \<in> set tr0. \<not> failed_primary e" .
    from appendToSheet_full_events [of env locations rs tr0] sheet(5) run
    obtain new where "tr = tr0 @ new" "\<forall>e \<in> set new. sheets_call e" by auto
    with c have "\<forall>e \<in> set tr. \<not> failed_primary e"
      by (auto dest: failed_primary_not_sheets)
    with ex show ?thesis by blast
  qed
qed

lemma fetched_up_to_failure:
  assumes c: "collect_full env ops locations [] = (res, tr)"
    and last: "tr = pre @ [Http_Get Nowcast lat lon a]"
  shows "\<exists>k < length locations.
           primary_coords tr =
             map (\<lambda>l. (latitude l, longitude l)) (take (Suc k) (by_area locations)) \<and>
           (lat, lon) = (latitude (by_area locations ! k), longitude (by_area locations ! k))"
proof (cases "locationsByArea locations")
  case (Inl err)
  with c have "tr = []" by (simp add: collect_full_def)
  with last show ?thesis by simp
next
  case (Inr obj)
  note len = length_by_area [OF Inr]
  from collect_full_coords [OF c] obtain k where k: "k \<le> length locations"
    "primary_coords tr = map (\<lambda>l. (latitude l, longitude l)) (take k (by_area locations))"
    by auto
  from last have p: "primary_coords tr = primary_coords pre @ [(lat, lon)]"
    by (simp add: primary_coords_append)
  have "k \<noteq> 0"
  proof
    assume "k = 0"
    with k(2) p show False by simp
  qed
  then obtain j where j: "k = Suc j" by (cases k) simp_all
  with k(1) len have jl: "j < length (by_area locations)" by simp
  from take_Suc_conv_app_nth [OF jl] k(2) j p
  have "primary_coords pre @ [(lat, lon)] =
        map (\<lambda>l. (latitude l, longitude l)) (take j (by_area locations)) @
        [(latitude (by_area locations ! j), longitude (by_area locations ! j))]"
    by simp
  then have "(lat, lon) = (latitude (by_area locations ! j), longitude (by_area locations ! j))"
    by simp
  with k(2) j jl len show ?thesis by auto
qed

text \<open>
  Claim C3, as amended. In a run of \<^verbatim>\<open>main\<close> (second revision) over the configured
  locations, a fetch from the primary endpoint that the weather provider answers with a
  non-success status is the last call of the run. The run ends in failure with the error
  that carries the status, and its trace has no call of the spreadsheet API. The
  locations fetched are the first ones in the order of fetching, which is area by area
  (\<open>by_area\<close>), up to and including the location \<open>L\<close> whose fetch failed: there is no
  fetch, and so no Reading, for a location that comes after \<open>L\<close> in that order. A
  location that comes after \<open>L\<close> in the list but in an area fetched before the area of
  \<open>L\<close> has been fetched before, as the example after the proof shows.
\<close>

theorem failed_fetch_aborts_run:
  assumes run: "main_full env ops argv = (out, tr)" and cfg: "config env = Inr locations"
    and i: "i < length tr"
    and e: "tr ! i = Http_Get Nowcast lat lon (Inr r)" and r: "\<not> ok r"
  shows "Suc i = length tr \<and>
         out = Failure (Api_Error ''Nowcast API error: '' (status r)) \<and>
         (\<forall>e \<in> set tr. \<not> sheets_call e) \<and>
         (\<exists>k < length locations.
            primary_coords tr =
              map (\<lambda>l. (latitude l, longitude l)) (take (Suc k) (by_area locations)) \<and>
            (lat, lon) = (latitude (by_area locations ! k), longitude (by_area locations ! k)))"
proof -
  from failed_fetch_in_fetch_phase [OF run i e r] cfg
  obtain err where c: "collect_full env ops locations [] = (Inl err, tr)"
    and out: "out = Failure err"
    by auto
  from collect_full_events [OF c] have s: "stops_at_failure (Inl err :: error + int) tr"
    by (auto dest: stops_at_failure_Inl)
  from failure_is_last [OF s i e r]
  have last: "Suc i = length tr" and err: "err = Api_Error ''Nowcast API error: '' (status r)"
    by simp_all
  from s have quiet: "\<forall>e \<in> set tr. \<not> sheets_call e"
    by (simp add: stops_at_failure_def)
  from last i have "tr = take i tr @ [tr ! i]"
    by (simp add: take_Suc_conv_app_nth [symmetric])
  with e have "tr = take i tr @ [Http_Get Nowcast lat lon (Inr r)]" by simp
  from fetched_up_to_failure [OF c this] last out err quiet show ?thesis by simp
qed


text \<open>
  Claim C7. With \<^verbatim>\<open>--dry-run\<close> among the arguments, neither revision of \<^verbatim>\<open>main\<close> calls
  the spreadsheet API. When the configuration loads and the fetch phase completes, the run
  returns normally right after it: its trace is the trace of the fetch phase, with one
  fetch from the primary endpoint per location.
\<close>

theorem dry_run_writes_nothing:
  assumes "''--dry-run'' \<in> set argv"
  shows "(\<forall>e \<in> set (snd (main_full env ops argv)). \<not> sheets_call e) \<and>
         (\<forall>e \<in> set (snd (main_temp env argv)). \<not> sheets_call e) \<and>
         (config env = Inr locations \<and> collect_full env ops locations [] = (Inr readings_full, tr) \<longrightarrow>
            main_full env ops argv = (Success, tr) \<and>
            length (filter primary_fetch tr) = length locations) \<and>
         (config env = Inr locations \<and> collect_temp env locations [] [] = (Inr readings, tr') \<longrightarrow>
            main_temp env argv = (Success, tr') \<and>
            length (filter primary_fetch tr') = length locations)"
proof (intro conjI impI)
  show "\<forall>e \<in> set (snd (main_full env ops argv)). \<not> sheets_call e"
  proof (cases rule: main_full_cases [of env ops argv])
    case (config err)
    then show ?thesis by simp
  next
    case (fetch locations err tr0)
    from collect_full_events [OF fetch(2)] fetch(3) show ?thesis
      by (auto simp: stops_at_failure_def)
  next
    case (dry locations rs tr0)
    from collect_full_events [OF dry(2)] dry(4) show ?thesis
      by (auto simp: stops_at_failure_def)
  next
    case (credentials locations rs tr0 err)
    with assms show ?thesis by simp
  next
    case (sheet locations rs tr0)
    with assms show ?thesis by simp
  qed
  show "\<forall>e \<in> set (snd (main_temp env argv)). \<not> sheets_call e"
  proof (cases rule: main_temp_cases [of env argv])
    case (config err)
    then show ?thesis by simp
  next
    case (fetch locations err tr0)
    from collect_temp_events [OF fetch(2)] fetch(3) show ?thesis by auto
  next
    case (dry locations rs tr0)
    from collect_temp_events [OF dry(2)] dry(4) show ?thesis by auto
  next
    case (credentials locations rs tr0 err)
    with assms show ?thesis by simp
  next
    case (sheet locations rs tr0)
    with assms show ?thesis by simp
  qed
next
  assume h: "config env = Inr locations \<and> collect_full env ops locations [] = (Inr readings_full, tr)"
  with assms show "main_full env ops argv = (Success, tr)"
    by (simp add: main_full_def)
  from h collect_full_events [of env ops locations "[]" "Inr readings_full" tr]
  show "length (filter primary_fetch tr) = length locations" by auto
next
  assume h: "config env = Inr locations \<and> collect_temp env locations [] [] = (Inr readings, tr')"
  with assms show "main_temp env argv = (Success, tr')"
    by (simp add: main_temp_def)
  from h collect_temp_events [of env locations "[]" "[]" "Inr readings" tr']
  show "length (filter primary_fetch tr') = length locations" by auto
qed


lemma outage_fetch_ok:
  "lat \<noteq> 60 \<Longrightarrow>
   fetchWeather_full (outage_at_60 ls) int_ops lat lon t =
     (Inr \<lparr>temperature = Some 5, precipitation = 10, cloudCover = Some 40,
           timestamp = ''2025-12-03T00:00:00Z''\<rparr>,
      t @ [Http_Get Nowcast lat lon (Inr (success eight_hours)),
           Http_Get Locationforecast lat lon (Inr (success [clouds (Some 40)]))])"
  by (simp add: fetchWeather_full_primary_ok [where nowcast = "success eight_hours" and forecast = "success [clouds (Some 40)]" and current = "rain 1" and rest = "tl eight_hours"]
      outage_at_60_def success_def eight_hours_def precipitation_loop_foldl
      next_precipitation_def rain_def dry_def clouds_def int_ops_def or_zero_def)

lemma outage_fetch_failed:
  "fetchWeather_full (outage_at_60 ls) int_ops 60 lon t =
     (Inl (Api_Error ''Nowcast API error: '' 503), t @ [Http_Get Nowcast 60 lon (Inr unavailable)])"
  by (simp add: fetchWeather_full_primary_failed [where nowcast = unavailable]
      outage_at_60_def unavailable_def)

lemma demo_grouping_three:
  "locationsByArea [oslo, bergen, tromso] =
     Inr [(''East'', [oslo]), (''West'', [bergen]), (''Other'', [tromso])]"
  "object_entries [(''East'', [oslo]), (''West'', [bergen]), (''Other'', [tromso :: int location])] =
     [(''East'', [oslo]), (''West'', [bergen]), (''Other'', [tromso])]"
  by (simp_all add: locationsByArea_def group_step_def Let_def area_or_other_def
      object_prototype_keys_def oslo_def bergen_def tromso_def
      object_entries_def is_array_index_def is_digit_def)

lemma demo_outage:
  "main_full (outage_at_60 [oslo, bergen, tromso]) int_ops [] =
     (Failure (Api_Error ''Nowcast API error: '' 503),
      [Http_Get Nowcast 59 10 (Inr (success eight_hours)),
       Http_Get Locationforecast 59 10 (Inr (success [clouds (Some 40)])),
       Http_Get Nowcast 60 5 (Inr unavailable)])"
proof -
  have c: "config (outage_at_60 [oslo, bergen, tromso]) = Inr [oslo, bergen, tromso]"
    by (simp add: outage_at_60_def)
  have l: "latitude oslo = 59" "longitude oslo = 10" "latitude bergen = 60" "longitude bergen = 5"
    by (simp_all add: oslo_def bergen_def)
  show ?thesis
    by (simp add: main_full_def c collect_full_def demo_grouping_three l outage_fetch_ok
        outage_fetch_failed)
qed

lemma demo_grouping_interleaved:
  "locationsByArea [oslo, bergen, lillehammer] =
     Inr [(''East'', [oslo, lillehammer]), (''West'', [bergen])]"
  "object_entries [(''East'', [oslo, lillehammer]), (''West'', [bergen :: int location])] =
     [(''East'', [oslo, lillehammer]), (''West'', [bergen])]"
  by (simp_all add: locationsByArea_def group_step_def Let_def area_or_other_def
      object_prototype_keys_def oslo_def bergen_def lillehammer_def
      object_entries_def not_array_index)

lemma demo_coords:
  "latitude oslo = 59" "longitude oslo = 10" "latitude bergen = 60" "longitude bergen = 5"
  "latitude lillehammer = 61" "longitude lillehammer = 10"
  "latitude tromso = 69" "longitude tromso = 18"
  by (simp_all add: oslo_def bergen_def lillehammer_def tromso_def)

text \<open>
  The claim C3 as stated is false: with Oslo (area East), Bergen (West) and Lillehammer
  (East), in this order, and the provider failing for Bergen, the run fetches for Oslo
  and for Lillehammer, whose Readings are collected, before the fetch for Bergen fails.
  Lillehammer comes after Bergen in the list.
\<close>

theorem later_location_fetched_counterexample:
  "main_full (outage_at_60 [oslo, bergen, lillehammer]) int_ops [] =
     (Failure (Api_Error ''Nowcast API error: '' 503),
      [Http_Get Nowcast 59 10 (Inr (success eight_hours)),
       Http_Get Locationforecast 59 10 (Inr (success [clouds (Some 40)])),
       Http_Get Nowcast 61 10 (Inr (success eight_hours)),
       Http_Get Locationforecast 61 10 (Inr (success [clouds (Some 40)])),
       Http_Get Nowcast 60 5 (Inr unavailable)]) \<and>
   map (\<lambda>l. (name l, latitude l, longitude l)) [oslo, bergen, lillehammer] =
     [(''Oslo'', 59, 10), (''Bergen'', 60, 5), (''Lillehammer'', 61, 10)] \<and>
   map_sum id (map r_location)
     (fst (fetch_area_full (outage_at_60 [oslo, bergen, lillehammer]) int_ops
        [oslo, lillehammer] [] [])) =
     Inr [''Oslo'', ''Lillehammer'']"
proof -
  have c: "config (outage_at_60 [oslo, bergen, lillehammer]) = Inr [oslo, bergen, lillehammer]"
    by (simp add: outage_at_60_def)
  have 1: "main_full (outage_at_60 [oslo, bergen, lillehammer]) int_ops [] =
     (Failure (Api_Error ''Nowcast API error: '' 503),
      [Http_Get Nowcast 59 10 (Inr (success eight_hours)),
       Http_Get Locationforecast 59 10 (Inr (success [clouds (Some 40)])),
       Http_Get Nowcast 61 10 (Inr (success eight_hours)),
       Http_Get Locationforecast 61 10 (Inr (success [clouds (Some 40)])),
       Http_Get Nowcast 60 5 (Inr unavailable)])"
    by (simp add: main_full_def c collect_full_def demo_grouping_interleaved demo_coords
        outage_fetch_ok outage_fetch_failed)
  have 2: "map (\<lambda>l. (name l, latitude l, longitude l)) [oslo, bergen, lillehammer] =
     [(''Oslo'', 59, 10), (''Bergen'', 60, 5), (''Lillehammer'', 61, 10)]"
    by (simp add: oslo_def bergen_def lillehammer_def)
  have 3: "map_sum id (map r_location)
     (fst (fetch_area_full (outage_at_60 [oslo, bergen, lillehammer]) int_ops
        [oslo, lillehammer] [] [])) =
     Inr [''Oslo'', ''Lillehammer'']"
    by (simp add: demo_coords outage_fetch_ok) (simp add: oslo_def lillehammer_def)
  from 1 2 3 show ?thesis by (intro conjI)
qed

lemma demo_by_area_three:
  "by_area [oslo, bergen, tromso] = [oslo, bergen, tromso]"
proof -
  have a: "area_or_other oslo = ''East''" "area_or_other bergen = ''West''"
    "area_or_other tromso = ''Other''"
    by (simp_all add: area_or_other_def oslo_def bergen_def tromso_def)
  have "area_order [oslo, bergen, tromso] = [''East'', ''West'', ''Other'']"
    by (simp add: area_order_def first_seen_def a is_array_index_def is_digit_def)
  then show ?thesis by (simp add: by_area_def a)
qed

text \<open>
  Oslo, Bergen and Tromso, each in an area of its own, with the provider failing for
  Bergen: the run fetches for Oslo, gets status 503 for Bergen and stops. There is no
  fetch for Tromso and no call of the spreadsheet API.
\<close>

theorem failed_fetch_aborts_run_witness:
  "main_full (outage_at_60 [oslo, bergen, tromso]) int_ops [] =
     (Failure (Api_Error ''Nowcast API error: '' 503),
      [Http_Get Nowcast 59 10 (Inr (success eight_hours)),
       Http_Get Locationforecast 59 10 (Inr (success [clouds (Some 40)])),
       Http_Get Nowcast 60 5 (Inr unavailable)]) \<and>
   config (outage_at_60 [oslo, bergen, tromso]) = Inr [oslo, bergen, tromso] \<and>
   \<not> ok unavailable \<and> status unavailable = 503 \<and>
   latitude (tromso :: int location) = 69 \<and>
   by_area [oslo, bergen, tromso] = [oslo, bergen, tromso] \<and>
   (\<exists>k < 3.
      primary_coords
        [Http_Get Nowcast 59 10 (Inr (success eight_hours)),
         Http_Get Locationforecast 59 10 (Inr (success [clouds (Some 40)])),
         Http_Get Nowcast (60 :: int) (5 :: int) (Inr unavailable)] =
        map (\<lambda>l. (latitude l, longitude l)) (take (Suc k) [oslo, bergen, tromso]) \<and>
      (60, 5) = (latitude ([oslo, bergen, tromso] ! k), longitude ([oslo, bergen, tromso] ! k)))"
proof -
  let ?tr = "[Http_Get Nowcast 59 10 (Inr (success eight_hours)),
       Http_Get Locationforecast 59 10 (Inr (success [clouds (Some 40)])),
       Http_Get Nowcast (60 :: int) (5 :: int) (Inr unavailable)]"
  have c: "config (outage_at_60 [oslo, bergen, tromso]) = Inr [oslo, bergen, tromso]"
    by (simp add: outage_at_60_def)
  have i: "2 < length ?tr" by simp
  have e: "?tr ! 2 = Http_Get Nowcast 60 5 (Inr unavailable)" by simp
  have r: "\<not> ok unavailable" by (simp add: unavailable_def)
  note inst = failed_fetch_aborts_run [OF demo_outage c i e r]
  from inst have "Failure (Api_Error ''Nowcast API error: '' 503) =
        Failure (Api_Error ''Nowcast API error: '' (status unavailable))"
    by (rule conjunct2 [THEN conjunct1])
  then have s: "status unavailable = 503" by simp
  from inst have "\<exists>k < length [oslo, bergen, tromso].
      primary_coords ?tr =
        map (\<lambda>l. (latitude l, longitude l)) (take (Suc k) (by_area [oslo, bergen, tromso])) \<and>
      (60, 5) = (latitude (by_area [oslo, bergen, tromso] ! k),
                 longitude (by_area [oslo, bergen, tromso] ! k))"
    by (rule conjunct2 [THEN conjunct2, THEN conjunct2])
  then obtain k where k3: "k < length [oslo, bergen, tromso]"
    and fetched: "primary_coords ?tr =
        map (\<lambda>l. (latitude l, longitude l)) (take (Suc k) [oslo, bergen, tromso])"
    and failed: "(60, 5) = (latitude ([oslo, bergen, tromso] ! k), longitude ([oslo, bergen, tromso] ! k))"
    unfolding demo_by_area_three by (elim exE conjE) (rule that, assumption+)
  from k3 have "k < 3" by simp
  with fetched failed have k: "\<exists>k < 3.
      primary_coords ?tr =
        map (\<lambda>l. (latitude l, longitude l)) (take (Suc k) [oslo, bergen, tromso]) \<and>
      (60, 5) = (latitude ([oslo, bergen, tromso] ! k), longitude ([oslo, bergen, tromso] ! k))"
    by (intro exI [of _ k] conjI)
  have "latitude (tromso :: int location) = 69" by (simp add: tromso_def)
  with demo_outage c r s k demo_by_area_three show ?thesis
    by (intro conjI)
qed


lemma demo_config: "config (fair_weather ls) = Inr ls"
  by (simp add: fair_weather_def world_answers)

text \<open>A dry run over three locations, in both revisions.\<close>

theorem dry_run_writes_nothing_witness:
  "main_full (fair_weather [oslo, drammen, bergen]) int_ops [''node'', ''src/index.js'', ''--dry-run''] =
     (Success,
      [Http_Get Nowcast 59 10 (Inr (success eight_hours)),
       Http_Get Locationforecast 59 10 (Inr (success [clouds (Some 40)])),
       Http_Get Nowcast 59 10 (Inr (success eight_hours)),
       Http_Get Locationforecast 59 10 (Inr (success [clouds (Some 40)])),
       Http_Get Nowcast 60 5 (Inr (success eight_hours)),
       Http_Get Locationforecast 60 5 (Inr (success [clouds (Some 40)]))]) \<and>
   main_temp (fair_weather [oslo, drammen, bergen]) [''node'', ''src/index.js'', ''--dry-run''] =
     (Success,
      [Http_Get Nowcast 59 10 (Inr (success eight_hours)),
       Http_Get Nowcast 59 10 (Inr (success eight_hours)),
       Http_Get Nowcast 60 5 (Inr (success eight_hours))])"
proof -
  let ?env = "fair_weather [oslo, drammen, bergen]"
  let ?argv = "[''node'', ''src/index.js'', ''--dry-run'']"
  have d: "''--dry-run'' \<in> set ?argv" by simp
  note inst = dry_run_writes_nothing [OF d, where env = ?env and ops = int_ops and
      locations = "[oslo, drammen, bergen]"]
  from inst [THEN conjunct2, THEN conjunct2, THEN conjunct1, rule_format,
      OF conjI [OF demo_config demo_collect_listed]]
  have 1: "main_full ?env int_ops ?argv =
     (Success,
      [Http_Get Nowcast 59 10 (Inr (success eight_hours)),
       Http_Get Locationforecast 59 10 (Inr (success [clouds (Some 40)])),
       Http_Get Nowcast 59 10 (Inr (success eight_hours)),
       Http_Get Locationforecast 59 10 (Inr (success [clouds (Some 40)])),
       Http_Get Nowcast 60 5 (Inr (success eight_hours)),
       Http_Get Locationforecast 60 5 (Inr (success [clouds (Some 40)]))])"
    by (rule conjunct1)
  from inst [THEN conjunct2, THEN conjunct2, THEN conjunct2, rule_format,
      OF conjI [OF demo_config demo_collect_temp]]
  have 2: "main_temp ?env ?argv =
     (Success,
      [Http_Get Nowcast 59 10 (Inr (success eight_hours)),
       Http_Get Nowcast 59 10 (Inr (success eight_hours)),
       Http_Get Nowcast 60 5 (Inr (success eight_hours))])"
    by (rule conjunct1)
  from 1 2 show ?thesis by (rule conjI)
qed


end
